theory Spec2Isabelle
  imports Complex_Main
begin

section \<open>JavaScript values\<close>

text \<open>
  A JavaScript string is a sequence of UTF-16 code units; \<open>length\<close> counts code units.
  A code unit is a natural number, and \<open>js\<close> turns a literal into its code units.
\<close>

type_synonym jsstring = "nat list"

definition js :: "string \<Rightarrow> jsstring" where
  "js s = map of_char s"

text \<open>
  A JavaScript \<open>number\<close> is modelled by the real it denotes: every finite double is a
  real. The rounding of doubles, \<open>NaN\<close> and the infinities are outside the model, so
  numbers appear only where the code compares them, counts with them or adds one to a
  depth: the value of a vote, the depth of a comment, the counters of a hypothesis and the
  ratio of two vote counts. The evidence balance of a hypothesis, which the code computes
  as a rounded quotient and returns, is not modelled.
\<close>

type_synonym number = real

text \<open>
  The values that reach the domain factories from untyped code: the result of
  \<open>JSON.parse\<close>, and \<open>undefined\<close> for a missing property or array element.
\<close>

datatype jsvalue =
    Undefined
  | Null
  | Boolean bool
  | Number number
  | String jsstring
  | Array "jsvalue list"
  | Object "(jsstring \<times> jsvalue) list"

text \<open>
  \<open>throw new Error(msg)\<close> is \<open>Error msg\<close>. A method call on a value that has no such
  method is a \<open>TypeError\<close>, a failing \<open>JSON.parse\<close> a \<open>SyntaxError\<close>; the engine's
  message text of these two is not modelled.
\<close>

datatype error = Error string | TypeError | SyntaxError

fun error_text :: "error \<Rightarrow> string" where
  "error_text (Error msg) = ''Error: '' @ msg"
| "error_text TypeError = ''TypeError''"
| "error_text SyntaxError = ''SyntaxError''"

text \<open>Truthiness, as \<open>||\<close>, \<open>&&\<close>, \<open>!\<close> and \<open>if\<close> test it.\<close>

fun truthy :: "jsvalue \<Rightarrow> bool" where
  "truthy Undefined = False"
| "truthy Null = False"
| "truthy (Boolean b) = b"
| "truthy (Number n) = (n \<noteq> 0)"
| "truthy (String s) = (s \<noteq> [])"
| "truthy (Array xs) = True"
| "truthy (Object kvs) = True"

definition js_or :: "jsvalue \<Rightarrow> jsvalue \<Rightarrow> jsvalue" where
  "js_or a b = (if truthy a then a else b)"

text \<open>
  \<open>v.trim()\<close>, \<open>v.length\<close> on a value typed \<open>string\<close> by the caller: a string goes
  through, anything else has no \<open>trim\<close> method.
\<close>

fun expectString :: "jsvalue \<Rightarrow> error + jsstring" where
  "expectString (String s) = Inr s"
| "expectString v = Inl TypeError"

subsection \<open>Strings\<close>

text \<open>
  The code units that \<open>String.prototype.trim\<close> strips and the regular expression class
  \<open>\s\<close> matches: ECMAScript's WhiteSpace and LineTerminator.
\<close>

definition isWhiteSpace :: "nat \<Rightarrow> bool" where
  "isWhiteSpace c \<longleftrightarrow>
     c \<in> set [9, 10, 11, 12, 13, 32, 160, 5760, 8232, 8233, 8239, 8287, 12288, 65279]
     \<or> (8192 \<le> c \<and> c \<le> 8202)"

definition trim :: "jsstring \<Rightarrow> jsstring" where
  "trim s = rev (dropWhile isWhiteSpace (rev (dropWhile isWhiteSpace s)))"

text \<open>The classes \<open>[a-zA-Z]\<close>, \<open>\w\<close> and \<open>[.!?]\<close>.\<close>

definition isAsciiLetter :: "nat \<Rightarrow> bool" where
  "isAsciiLetter c \<longleftrightarrow> (65 \<le> c \<and> c \<le> 90) \<or> (97 \<le> c \<and> c \<le> 122)"

definition isWordChar :: "nat \<Rightarrow> bool" where
  "isWordChar c \<longleftrightarrow> isAsciiLetter c \<or> (48 \<le> c \<and> c \<le> 57) \<or> c = 95"

definition isSentenceEnd :: "nat \<Rightarrow> bool" where
  "isSentenceEnd c \<longleftrightarrow> c = 46 \<or> c = 33 \<or> c = 63"

text \<open>\<open>s.match(/[C]+/g) || []\<close>: the maximal runs of characters of the class, left to right.\<close>

function matchAll :: "(nat \<Rightarrow> bool) \<Rightarrow> jsstring \<Rightarrow> jsstring list" where
  "matchAll P [] = []"
| "matchAll P (c # cs) =
     (if P c then (c # takeWhile P cs) # matchAll P (dropWhile P cs)
      else matchAll P cs)"
  by pat_completeness auto
termination
  by (relation "measure (\<lambda>(P, s). length s)")
     (auto simp: le_imp_less_Suc length_dropWhile_le)

text \<open>
  \<open>s.split(/\s+/)\<close>: the pieces between the maximal runs of white space, with an empty
  piece before a leading run and after a trailing one.
\<close>

function split_ws :: "jsstring \<Rightarrow> jsstring list" where
  "split_ws s =
     (let piece = takeWhile (\<lambda>c. \<not> isWhiteSpace c) s;
          rest = dropWhile (\<lambda>c. \<not> isWhiteSpace c) s
      in if rest = [] then [piece] else piece # split_ws (dropWhile isWhiteSpace rest))"
  by pat_completeness auto
termination
proof (relation "measure length", simp, goal_cases)
  case (1 s piece rest)
  let ?r = "dropWhile (\<lambda>c. \<not> isWhiteSpace c) s"
  from 1 have ne: "?r \<noteq> []"
    by simp
  then have "isWhiteSpace (hd ?r)"
    using hd_dropWhile [of "\<lambda>c. \<not> isWhiteSpace c" s] by simp
  with ne have "length (dropWhile isWhiteSpace ?r) < length ?r"
    by (cases ?r) (simp_all add: le_imp_less_Suc length_dropWhile_le)
  also have "\<dots> \<le> length s"
    by (simp add: length_dropWhile_le)
  finally show ?case
    using 1 by simp
qed

declare split_ws.simps [simp del]

section \<open>Hypothesis domain model\<close>

subsection \<open>HypothesisTitle\<close>

datatype HypothesisTitle = HypothesisTitle jsstring

fun HypothesisTitle_toString :: "HypothesisTitle \<Rightarrow> jsstring" where
  "HypothesisTitle_toString (HypothesisTitle v) = v"

text \<open>\<open>/^[a-zA-Z]/.test(s)\<close>\<close>

fun startsWithLetter :: "jsstring \<Rightarrow> bool" where
  "startsWithLetter [] = False"
| "startsWithLetter (c # cs) = isAsciiLetter c"

definition HypothesisTitle_create :: "jsstring \<Rightarrow> error + HypothesisTitle" where
  "HypothesisTitle_create title =
     (let trimmed = trim title in
      if length trimmed < 10 then
        Inl (Error ''Hypothesis title must be at least 10 characters to be descriptive'')
      else if length trimmed > 256 then
        Inl (Error ''Hypothesis title must not exceed 256 characters for readability'')
      else if \<not> startsWithLetter trimmed then
        Inl (Error ''Hypothesis title must start with a letter'')
      else Inr (HypothesisTitle trimmed))"

subsection \<open>HypothesisBody\<close>

datatype HypothesisBody = HypothesisBody jsstring

fun HypothesisBody_toString :: "HypothesisBody \<Rightarrow> jsstring" where
  "HypothesisBody_toString (HypothesisBody v) = v"

definition HypothesisBody_create :: "jsstring \<Rightarrow> error + HypothesisBody" where
  "HypothesisBody_create body =
     (let trimmed = trim body in
      if length trimmed < 50 then
        Inl (Error ''Hypothesis description must be at least 50 characters for adequate detail'')
      else if length trimmed > 1024 then
        Inl (Error ''Hypothesis description must not exceed 1024 characters'')
      else
        let sentenceCount = length (matchAll isSentenceEnd trimmed) in
        if sentenceCount < 2 then
          Inl (Error ''Hypothesis description should contain multiple sentences for clarity'')
        else Inr (HypothesisBody trimmed))"

subsection \<open>AcademicCategory\<close>

datatype AcademicCategory =
  PHYSICS | BIOLOGY | ECONOMICS | PSYCHOLOGY | MATHEMATICS | COMPUTER_SCIENCE | PHILOSOPHY | OTHER

fun AcademicCategory_value :: "AcademicCategory \<Rightarrow> jsstring" where
  "AcademicCategory_value PHYSICS = js ''physics''"
| "AcademicCategory_value BIOLOGY = js ''biology''"
| "AcademicCategory_value ECONOMICS = js ''economics''"
| "AcademicCategory_value PSYCHOLOGY = js ''psychology''"
| "AcademicCategory_value MATHEMATICS = js ''mathematics''"
| "AcademicCategory_value COMPUTER_SCIENCE = js ''computer_science''"
| "AcademicCategory_value PHILOSOPHY = js ''philosophy''"
| "AcademicCategory_value OTHER = js ''other''"

definition AcademicCategory_all :: "AcademicCategory list" where
  "AcademicCategory_all =
     [PHYSICS, BIOLOGY, ECONOMICS, PSYCHOLOGY, MATHEMATICS, COMPUTER_SCIENCE, PHILOSOPHY, OTHER]"

text \<open>
  \<open>Object.values(AcademicCategory).includes(category)\<close>, returning the member found: at run
  time the argument is whatever the caller passed, and only the eight strings pass.
\<close>

fun AcademicCategory_includes :: "jsvalue \<Rightarrow> AcademicCategory option" where
  "AcademicCategory_includes (String s) =
     find (\<lambda>c. AcademicCategory_value c = s) AcademicCategory_all"
| "AcademicCategory_includes v = None"

subsection \<open>Hypothesis\<close>

record SourceStats =
  supporting :: number
  refuting :: number

text \<open>
  The fields of the three aggregates carry the initial of their class (\<open>h_\<close>, \<open>s_\<close>,
  \<open>c_\<close>), since all three have an \<open>id\<close>, a \<open>nostrEventId\<close> and a \<open>createdAt\<close>.
  A \<open>Date\<close> is its time value in milliseconds.
\<close>

record Hypothesis =
  h_id :: jsstring
  h_nostrEventId :: jsstring
  h_title :: HypothesisTitle
  h_body :: HypothesisBody
  h_category :: AcademicCategory
  h_creatorPublicKey :: jsstring
  h_createdAt :: int
  sourceStats :: SourceStats
  commentCount :: number

definition Hypothesis_create ::
  "jsstring \<Rightarrow> jsstring \<Rightarrow> jsvalue \<Rightarrow> jsvalue \<Rightarrow> jsvalue \<Rightarrow> jsstring \<Rightarrow> int
     \<Rightarrow> error + Hypothesis" where
  "Hypothesis_create ident nostrEventId title body category creatorPublicKey createdAt =
     (case expectString title of Inl e \<Rightarrow> Inl e | Inr title_s \<Rightarrow>
      case HypothesisTitle_create title_s of Inl e \<Rightarrow> Inl e | Inr validatedTitle \<Rightarrow>
      case expectString body of Inl e \<Rightarrow> Inl e | Inr body_s \<Rightarrow>
      case HypothesisBody_create body_s of Inl e \<Rightarrow> Inl e | Inr validatedBody \<Rightarrow>
      if creatorPublicKey = [] \<or> length creatorPublicKey < 10 then
        Inl (Error ''Valid creator public key required'')
      else case AcademicCategory_includes category of
        None \<Rightarrow> Inl (Error ''Invalid academic category'')
      | Some cat \<Rightarrow>
          Inr \<lparr> h_id = ident, h_nostrEventId = nostrEventId, h_title = validatedTitle,
                h_body = validatedBody, h_category = cat,
                h_creatorPublicKey = creatorPublicKey, h_createdAt = createdAt,
                sourceStats = \<lparr> supporting = 0, refuting = 0 \<rparr>, commentCount = 0 \<rparr>)"

section \<open>Source domain model\<close>

subsection \<open>Vote\<close>

record Vote =
  v_value :: number
  v_voterPublicKey :: jsstring
  v_createdAt :: int

text \<open>The default \<open>createdAt = new Date()\<close> is the caller's clock, passed explicitly.\<close>

definition Vote_create :: "number \<Rightarrow> jsstring \<Rightarrow> int \<Rightarrow> error + Vote" where
  "Vote_create val voterPublicKey createdAt =
     (if val \<noteq> 1 \<and> val \<noteq> -1 then
        Inl (Error ''Vote value must be +1 (upvote) or -1 (downvote)'')
      else if voterPublicKey = [] \<or> length voterPublicKey < 10 then
        Inl (Error ''Valid voter public key required'')
      else Inr \<lparr> v_value = val, v_voterPublicKey = voterPublicKey, v_createdAt = createdAt \<rparr>)"

definition isUpvote :: "Vote \<Rightarrow> bool" where
  "isUpvote v \<longleftrightarrow> v_value v = 1"

definition isDownvote :: "Vote \<Rightarrow> bool" where
  "isDownvote v \<longleftrightarrow> v_value v = -1"

subsection \<open>The built-in Map\<close>

text \<open>
  A JavaScript \<open>Map\<close> is the list of its entries in insertion order: \<open>set\<close> on a key that
  is present replaces the value in place, on a new key it appends; \<open>delete\<close> removes the
  entry; \<open>size\<close> counts entries and \<open>values()\<close> iterates in order.
\<close>

type_synonym ('k, 'v) Map = "('k \<times> 'v) list"

fun Map_set :: "'k \<Rightarrow> 'v \<Rightarrow> ('k, 'v) Map \<Rightarrow> ('k, 'v) Map" where
  "Map_set k v [] = [(k, v)]"
| "Map_set k v ((k', v') # m) = (if k' = k then (k, v) # m else (k', v') # Map_set k v m)"

fun Map_delete :: "'k \<Rightarrow> ('k, 'v) Map \<Rightarrow> ('k, 'v) Map" where
  "Map_delete k [] = []"
| "Map_delete k ((k', v') # m) = (if k' = k then Map_delete k m else (k', v') # Map_delete k m)"

fun Map_get :: "('k, 'v) Map \<Rightarrow> 'k \<Rightarrow> 'v option" where
  "Map_get [] k = None"
| "Map_get ((k', v') # m) k = (if k' = k then Some v' else Map_get m k)"

definition Map_size :: "('k, 'v) Map \<Rightarrow> nat" where
  "Map_size m = length m"

definition Map_values :: "('k, 'v) Map \<Rightarrow> 'v list" where
  "Map_values m = map snd m"

subsection \<open>Source\<close>

datatype EvidenceStance = SUPPORTING | REFUTING

datatype SourceUrl = SourceUrl jsstring

datatype SourceDescription = SourceDescription jsstring

record Source =
  s_id :: jsstring
  s_nostrEventId :: jsstring
  s_hypothesisId :: jsstring
  s_url :: SourceUrl
  s_description :: SourceDescription
  s_stance :: EvidenceStance
  s_contributorPublicKey :: jsstring
  s_createdAt :: int
  votes :: "(jsstring, Vote) Map"

text \<open>The private constructor: the eight fields as given, and a fresh empty vote map.\<close>

definition Source_new ::
  "jsstring \<Rightarrow> jsstring \<Rightarrow> jsstring \<Rightarrow> SourceUrl \<Rightarrow> SourceDescription \<Rightarrow> EvidenceStance
     \<Rightarrow> jsstring \<Rightarrow> int \<Rightarrow> Source" where
  "Source_new ident nostrEventId hypothesisId url description stance contributorPublicKey createdAt =
     \<lparr> s_id = ident, s_nostrEventId = nostrEventId, s_hypothesisId = hypothesisId, s_url = url,
       s_description = description, s_stance = stance,
       s_contributorPublicKey = contributorPublicKey, s_createdAt = createdAt, votes = [] \<rparr>"

text \<open>
  \<open>addVote\<close> throws before it touches the map when \<open>Vote.create\<close> rejects; the last
  argument is the clock read by \<open>Vote.create\<close>.
\<close>

definition addVote :: "Source \<Rightarrow> jsstring \<Rightarrow> number \<Rightarrow> int \<Rightarrow> error + Source" where
  "addVote s voterPublicKey val now =
     (case Vote_create val voterPublicKey now of
        Inl e \<Rightarrow> Inl e
      | Inr vote \<Rightarrow> Inr (s\<lparr> votes := Map_set voterPublicKey vote (votes s) \<rparr>))"

definition removeVote :: "Source \<Rightarrow> jsstring \<Rightarrow> Source" where
  "removeVote s voterPublicKey = s\<lparr> votes := Map_delete voterPublicKey (votes s) \<rparr>"

definition getVoteScore :: "Source \<Rightarrow> number" where
  "getVoteScore s = fold (\<lambda>vote score. score + v_value vote) (Map_values (votes s)) 0"

definition getUserVote :: "Source \<Rightarrow> jsstring \<Rightarrow> number option" where
  "getUserVote s userPublicKey = map_option v_value (Map_get (votes s) userPublicKey)"

definition getTotalVotes :: "Source \<Rightarrow> nat" where
  "getTotalVotes s = Map_size (votes s)"

text \<open>The counting loop of \<open>isControversial\<close>: the pair is \<open>(upvotes, downvotes)\<close>.\<close>

definition countVotes :: "Vote list \<Rightarrow> nat \<times> nat" where
  "countVotes vs =
     fold (\<lambda>vote (upvotes, downvotes).
             if isUpvote vote then (upvotes + 1, downvotes) else (upvotes, downvotes + 1))
          vs (0, 0)"

definition Source_isControversial :: "Source \<Rightarrow> bool" where
  "Source_isControversial s =
     (if getTotalVotes s < 5 then False
      else
        let (upvotes, downvotes) = countVotes (Map_values (votes s));
            ratio = real (min upvotes downvotes) / real (max upvotes downvotes)
        in ratio > 0.6)"

text \<open>
  The operations that change a source after its construction, and a run of them: a
  rejected \<open>addVote\<close> throws and leaves the source as it was.
\<close>

datatype VoteOp = AddVote jsstring number int | RemoveVote jsstring

fun applyVoteOp :: "Source \<Rightarrow> VoteOp \<Rightarrow> Source" where
  "applyVoteOp s (AddVote k val now) =
     (case addVote s k val now of Inl e \<Rightarrow> s | Inr s' \<Rightarrow> s')"
| "applyVoteOp s (RemoveVote k) = removeVote s k"

definition applyVoteOps :: "Source \<Rightarrow> VoteOp list \<Rightarrow> Source" where
  "applyVoteOps s ops = fold (\<lambda>op s. applyVoteOp s op) ops s"

text \<open>The number of entries the map holds for a voter.\<close>

definition votesOf :: "Source \<Rightarrow> jsstring \<Rightarrow> nat" where
  "votesOf s k = length (filter (\<lambda>entry. fst entry = k) (votes s))"

text \<open>Every stored vote has a value that \<open>Vote.create\<close> accepts.\<close>

definition validVotes :: "Source \<Rightarrow> bool" where
  "validVotes s \<longleftrightarrow>
     list_all (\<lambda>v. v_value v = 1 \<or> v_value v = - 1) (Map_values (votes s))"

section \<open>Comment domain model\<close>

subsection \<open>CommentContent\<close>

datatype CommentContent = CommentContent jsstring

fun CommentContent_toString :: "CommentContent \<Rightarrow> jsstring" where
  "CommentContent_toString (CommentContent v) = v"

text \<open>\<open>/^\w+\s*$/.test(s)\<close>\<close>

definition singleWord :: "jsstring \<Rightarrow> bool" where
  "singleWord s \<longleftrightarrow>
     takeWhile isWordChar s \<noteq> [] \<and> list_all isWhiteSpace (dropWhile isWordChar s)"

text \<open>
  \<open>/^(good|bad|yes|no|ok|okay|true|false)\s*$/i.test(s)\<close>: without the \<open>u\<close> flag the
  \<open>i\<close> flag folds the ASCII letters only.
\<close>

definition asciiLower :: "nat \<Rightarrow> nat" where
  "asciiLower c = (if 65 \<le> c \<and> c \<le> 90 then c + 32 else c)"

definition nonSubstantive :: "jsstring \<Rightarrow> bool" where
  "nonSubstantive s \<longleftrightarrow>
     list_ex (\<lambda>w. map asciiLower (take (length w) s) = w
                 \<and> list_all isWhiteSpace (drop (length w) s))
       [js ''good'', js ''bad'', js ''yes'', js ''no'', js ''ok'', js ''okay'', js ''true'',
        js ''false'']"

definition CommentContent_create :: "jsstring \<Rightarrow> error + CommentContent" where
  "CommentContent_create content =
     (let trimmed = trim content in
      if length trimmed = 0 then Inl (Error ''Comment content cannot be empty'')
      else if length trimmed > 512 then
        Inl (Error ''Comment must not exceed 512 characters for readability'')
      else
        let wordCount = length (split_ws trimmed) in
        if wordCount < 3 then
          Inl (Error ''Comment must contain at least 3 words to be meaningful'')
        else if singleWord trimmed \<or> nonSubstantive trimmed then
          Inl (Error ''Comment must provide substantive contribution to discussion'')
        else Inr (CommentContent trimmed))"

subsection \<open>CommentParent\<close>

datatype ParentType = hypothesis | comment

record CommentParent =
  p_type :: ParentType
  p_id :: jsstring
  p_authorPublicKey :: jsstring

definition CommentParent_new :: "ParentType \<Rightarrow> jsstring \<Rightarrow> jsstring \<Rightarrow> error + CommentParent" where
  "CommentParent_new t ident authorPublicKey =
     (if ident = [] \<or> length (trim ident) = 0 then Inl (Error ''Parent ID cannot be empty'')
      else if authorPublicKey = [] \<or> length authorPublicKey < 10 then
        Inl (Error ''Valid parent author public key required'')
      else Inr \<lparr> p_type = t, p_id = ident, p_authorPublicKey = authorPublicKey \<rparr>)"

definition isRootLevel :: "CommentParent \<Rightarrow> bool" where
  "isRootLevel p \<longleftrightarrow> p_type p = hypothesis"

definition isReply :: "CommentParent \<Rightarrow> bool" where
  "isReply p \<longleftrightarrow> p_type p = comment"

definition CommentParent_equals :: "CommentParent \<Rightarrow> CommentParent \<Rightarrow> bool" where
  "CommentParent_equals p other \<longleftrightarrow>
     p_type p = p_type other \<and> p_id p = p_id other
     \<and> p_authorPublicKey p = p_authorPublicKey other"

subsection \<open>Comment\<close>

text \<open>
  Comments are objects that \<open>addReply\<close> and \<open>markAsDeleted\<close> change in place, and
  \<open>buildTree\<close> reaches the same comment through its input array and through its index.
  So a comment is named by a reference, the heap gives the object a reference points to,
  and \<open>replies\<close> holds references.
\<close>

type_synonym ref = nat

record Comment =
  c_id :: jsstring
  c_nostrEventId :: jsstring
  c_content :: CommentContent
  c_parent :: CommentParent
  c_authorPublicKey :: jsstring
  c_createdAt :: int
  c_depth :: number
  replies :: "ref list"
  isDeleted :: bool

type_synonym heap = "ref \<Rightarrow> Comment"

text \<open>\<open>Comment.create\<close> returns the new object; the caller decides where it lives.\<close>

definition Comment_create ::
  "jsstring \<Rightarrow> jsstring \<Rightarrow> jsstring \<Rightarrow> ParentType \<Rightarrow> jsstring \<Rightarrow> jsstring \<Rightarrow> jsstring \<Rightarrow> int
     \<Rightarrow> number \<Rightarrow> error + Comment" where
  "Comment_create ident nostrEventId content parentType parentId parentAuthorPublicKey
       authorPublicKey createdAt depth =
     (case CommentContent_create content of Inl e \<Rightarrow> Inl e | Inr validatedContent \<Rightarrow>
      case CommentParent_new parentType parentId parentAuthorPublicKey of
        Inl e \<Rightarrow> Inl e
      | Inr parent \<Rightarrow>
          if authorPublicKey = [] \<or> length authorPublicKey < 10 then
            Inl (Error ''Valid author public key required'')
          else if depth < 0 then Inl (Error ''Comment depth cannot be negative'')
          else if depth > 10 then Inl (Error ''Comment thread depth cannot exceed 10 levels'')
          else
            Inr \<lparr> c_id = ident, c_nostrEventId = nostrEventId, c_content = validatedContent,
                  c_parent = parent, c_authorPublicKey = authorPublicKey,
                  c_createdAt = createdAt, c_depth = depth, replies = [], isDeleted = False \<rparr>)"



definition addReply :: "heap \<Rightarrow> ref \<Rightarrow> ref \<Rightarrow> error + heap" where
  "addReply h this reply =
     (if isDeleted (h this) then Inl (Error ''Cannot reply to deleted comment'')
      else case CommentParent_new comment (c_id (h this)) (c_authorPublicKey (h this)) of
        Inl e \<Rightarrow> Inl e
      | Inr expected \<Rightarrow>
          if \<not> CommentParent_equals (c_parent (h reply)) expected then
            Inl (Error ''Reply parent reference must match this comment'')
          else if c_depth (h reply) \<noteq> c_depth (h this) + 1 then
            Inl (Error ''Reply depth must be exactly one level deeper than parent'')
          else Inr (h(this := (h this)\<lparr> replies := replies (h this) @ [reply] \<rparr>)))"

definition markAsDeleted :: "heap \<Rightarrow> ref \<Rightarrow> heap" where
  "markAsDeleted h this = h(this := (h this)\<lparr> isDeleted := True \<rparr>)"

definition isRootComment :: "Comment \<Rightarrow> bool" where
  "isRootComment c \<longleftrightarrow> isRootLevel (c_parent c) \<and> c_depth c = 0"


text \<open>
  The operations that change comments after their construction, and a run of them, each
  call in its own \<open>try\<close>: a rejected \<open>addReply\<close> throws and leaves the heap as it was.
\<close>

datatype CommentOp = AddReply ref ref | MarkAsDeleted ref

fun applyCommentOp :: "heap \<Rightarrow> CommentOp \<Rightarrow> heap" where
  "applyCommentOp h (AddReply this reply) =
     (case addReply h this reply of Inl e \<Rightarrow> h | Inr h' \<Rightarrow> h')"
| "applyCommentOp h (MarkAsDeleted this) = markAsDeleted h this"

definition applyCommentOps :: "heap \<Rightarrow> CommentOp list \<Rightarrow> heap" where
  "applyCommentOps h ops = fold (\<lambda>op h. applyCommentOp h op) ops h"

subsection \<open>CommentTreeBuilder\<close>

text \<open>First pass: the index from id to comment; a later comment with the same id wins.\<close>

fun indexComments :: "heap \<Rightarrow> ref list \<Rightarrow> (jsstring \<rightharpoonup> ref) \<Rightarrow> (jsstring \<rightharpoonup> ref)" where
  "indexComments h [] commentMap = commentMap"
| "indexComments h (c # cs) commentMap = indexComments h cs (commentMap(c_id (h c) \<mapsto> c))"

text \<open>
  Second pass, over the same array. The body of the loop: a root comment is pushed on the
  result, any other comment is added to the comment the index holds for its parent id, if
  there is one; an exception of \<open>addReply\<close> is caught and logged.
\<close>

definition linkStep ::
  "(jsstring \<rightharpoonup> ref) \<Rightarrow> ref \<Rightarrow> heap \<Rightarrow> ref list \<Rightarrow> heap \<times> ref list" where
  "linkStep commentMap c h rootComments =
     (if isRootComment (h c) then (h, rootComments @ [c])
      else case commentMap (p_id (c_parent (h c))) of
        None \<Rightarrow> (h, rootComments)
      | Some parent \<Rightarrow>
          (case addReply h parent c of
             Inl e \<Rightarrow> (h, rootComments)
           | Inr h' \<Rightarrow> (h', rootComments)))"

fun linkComments ::
  "(jsstring \<rightharpoonup> ref) \<Rightarrow> ref list \<Rightarrow> heap \<Rightarrow> ref list \<Rightarrow> heap \<times> ref list" where
  "linkComments commentMap [] h rootComments = (h, rootComments)"
| "linkComments commentMap (c # cs) h rootComments =
     (case linkStep commentMap c h rootComments of
        (h', rootComments') \<Rightarrow> linkComments commentMap cs h' rootComments')"

text \<open>
  \<open>buildTree\<close> returns the root comments; the heap it leaves behind holds the replies.
  It has no error result: nothing outside the \<open>try\<close> block throws.
\<close>

definition buildTree :: "heap \<Rightarrow> ref list \<Rightarrow> heap \<times> ref list" where
  "buildTree h comments = linkComments (indexComments h comments Map.empty) comments h []"

section \<open>Wire events and the hypothesis transformer\<close>

subsection \<open>Events\<close>

type_synonym tag = "jsstring list"

text \<open>
  A \<open>NostrEvent\<close>; before signing, \<open>id\<close> and \<open>sig\<close> are absent, here empty. An event
  template is the \<open>Partial<NostrEvent>\<close> that the factories return and \<open>signEvent\<close>
  reads: every field may be missing.
\<close>

record NostrEvent =
  e_id :: jsstring
  e_kind :: nat
  e_created_at :: int
  e_tags :: "tag list"
  e_content :: jsstring
  e_pubkey :: jsstring
  e_sig :: jsstring

record EventTemplate =
  t_kind :: "nat option"
  t_created_at :: "int option"
  t_tags :: "tag list option"
  t_content :: "jsstring option"

definition BLACK_PAPER_EVENT_KINDS_HYPOTHESIS :: nat where
  "BLACK_PAPER_EVENT_KINDS_HYPOTHESIS = 1"

text \<open>
  \<open>JSON.stringify\<close> and \<open>JSON.parse\<close> belong to the platform: the factory and the
  transformer take them as arguments. \<open>JSON.parse\<close> returns the parsed value or throws
  a \<open>SyntaxError\<close>.
\<close>

definition createHypothesisEvent ::
  "(jsvalue \<Rightarrow> jsstring) \<Rightarrow> jsstring \<Rightarrow> jsstring \<Rightarrow> jsstring \<Rightarrow> EventTemplate" where
  "createHypothesisEvent JSON_stringify title body category =
     \<lparr> t_kind = Some BLACK_PAPER_EVENT_KINDS_HYPOTHESIS,
       t_created_at = None,
       t_tags = Some [[js ''t'', js ''hypothesis''],
                      [js ''t'', js ''blackpaper''],
                      [js ''category'', category],
                      [js ''title'', title]],
       t_content = Some (JSON_stringify
                           (Object [(js ''title'', String title), (js ''body'', String body)])) \<rparr>"

subsection \<open>Signing\<close>

text \<open>
  The functions of the \<open>nostr-tools\<close> library that \<open>signEvent\<close> calls. Of
  \<open>finalizeEvent\<close> the model keeps its contract: it sets \<open>id\<close> to the hash of the event
  and \<open>sig\<close> to the signature of that hash, and leaves the other fields.
\<close>

record NostrTools =
  nip19_decode :: "jsstring \<Rightarrow> error + jsstring"
  getPublicKey :: "jsstring \<Rightarrow> error + jsstring"
  getEventHash :: "NostrEvent \<Rightarrow> jsstring"
  schnorr_sign :: "jsstring \<Rightarrow> jsstring \<Rightarrow> jsstring"

definition finalizeEvent :: "NostrTools \<Rightarrow> NostrEvent \<Rightarrow> jsstring \<Rightarrow> NostrEvent" where
  "finalizeEvent lib event key =
     event\<lparr> e_id := getEventHash lib event,
            e_sig := schnorr_sign lib (getEventHash lib event) key \<rparr>"

text \<open>
  \<open>signEvent\<close>; \<open>now\<close> is \<open>Math.floor(Date.now() / 1000)\<close>. The operator \<open>||\<close> takes
  the default for a missing field and for a falsy one (kind 0, time 0, empty content).
\<close>

definition signEvent ::
  "NostrTools \<Rightarrow> int \<Rightarrow> EventTemplate \<Rightarrow> jsstring \<Rightarrow> error + NostrEvent" where
  "signEvent lib now eventTemplate privateKey =
     (case (if take 4 privateKey = js ''nsec'' then nip19_decode lib privateKey
            else Inr privateKey) of
        Inl e \<Rightarrow> Inl e
      | Inr hexPrivateKey \<Rightarrow>
          (case getPublicKey lib hexPrivateKey of
             Inl e \<Rightarrow> Inl e
           | Inr pubkey \<Rightarrow>
               Inr (finalizeEvent lib
                 \<lparr> e_id = [],
                   e_kind = (case t_kind eventTemplate of
                               None \<Rightarrow> 1 | Some k \<Rightarrow> if k = 0 then 1 else k),
                   e_created_at = (case t_created_at eventTemplate of
                                     None \<Rightarrow> now | Some t \<Rightarrow> if t = 0 then now else t),
                   e_tags = (case t_tags eventTemplate of None \<Rightarrow> [] | Some ts \<Rightarrow> ts),
                   e_content = (case t_content eventTemplate of None \<Rightarrow> [] | Some c \<Rightarrow> c),
                   e_pubkey = pubkey,
                   e_sig = [] \<rparr>
                 hexPrivateKey)))"

subsection \<open>NostrEventTransformer\<close>

text \<open>\<open>tag[i]\<close>: \<open>undefined\<close> past the end of the array.\<close>

definition tagAt :: "tag \<Rightarrow> nat \<Rightarrow> jsvalue" where
  "tagAt tag i = (if i < length tag then String (tag ! i) else Undefined)"

text \<open>
  \<open>v.name\<close> for the property names the transformer reads (\<open>title\<close>, \<open>body\<close>,
  \<open>content\<close>), which no prototype defines: a \<open>TypeError\<close> on \<open>null\<close> and
  \<open>undefined\<close>, the own property of an object, \<open>undefined\<close> otherwise.
\<close>

fun getProp :: "jsvalue \<Rightarrow> jsstring \<Rightarrow> error + jsvalue" where
  "getProp Undefined name = Inl TypeError"
| "getProp Null name = Inl TypeError"
| "getProp (Object kvs) name = Inr (case map_of kvs name of None \<Rightarrow> Undefined | Some v \<Rightarrow> v)"
| "getProp v name = Inr Undefined"

text \<open>
  The body of the \<open>try\<close> block of \<open>eventToHypothesis\<close>. The content of an event is a
  string, so it is always parsed. The arguments of \<open>Hypothesis.create\<close> are evaluated
  in order: the title, then \<open>content.body || content.content || ''\<close>.
\<close>

definition eventToHypothesis_try ::
  "(jsstring \<Rightarrow> error + jsvalue) \<Rightarrow> NostrEvent \<Rightarrow> error + Hypothesis" where
  "eventToHypothesis_try JSON_parse event =
     (case JSON_parse (e_content event) of Inl e \<Rightarrow> Inl e | Inr content \<Rightarrow>
      let categoryTag = find (\<lambda>tag. tagAt tag 0 = String (js ''category'')) (e_tags event);
          category = (case categoryTag of
                        Some tag \<Rightarrow> tagAt tag 1
                      | None \<Rightarrow> String (AcademicCategory_value OTHER));
          titleTag = find (\<lambda>tag. tagAt tag 0 = String (js ''title'')) (e_tags event)
      in
      case (case titleTag of
              Some tag \<Rightarrow> Inr (tagAt tag 1)
            | None \<Rightarrow> getProp content (js ''title'')) of Inl e \<Rightarrow> Inl e | Inr title \<Rightarrow>
      case getProp content (js ''body'') of Inl e \<Rightarrow> Inl e | Inr body \<Rightarrow>
      case (if truthy body then Inr body
            else case getProp content (js ''content'') of
                   Inl e \<Rightarrow> Inl e
                 | Inr c \<Rightarrow> Inr (js_or c (String []))) of Inl e \<Rightarrow> Inl e | Inr bodyArg \<Rightarrow>
      Hypothesis_create (e_id event) (e_id event) title bodyArg category (e_pubkey event)
        (e_created_at event * 1000))"

definition eventToHypothesis ::
  "(jsstring \<Rightarrow> error + jsvalue) \<Rightarrow> NostrEvent \<Rightarrow> error + Hypothesis" where
  "eventToHypothesis JSON_parse event =
     (case eventToHypothesis_try JSON_parse event of
        Inl e \<Rightarrow> Inl (Error (''Failed to parse hypothesis event: '' @ error_text e))
      | Inr h \<Rightarrow> Inr h)"

text \<open>
  \<open>isValidHypothesisEvent\<close>: the result is the truthiness of the value returned, which
  is what its callers test; any exception gives \<open>false\<close>.
\<close>

definition hasTag :: "NostrEvent \<Rightarrow> jsstring \<Rightarrow> jsstring \<Rightarrow> bool" where
  "hasTag event name val \<longleftrightarrow>
     list_ex (\<lambda>tag. tagAt tag 0 = String name \<and> tagAt tag 1 = String val) (e_tags event)"

definition isValidHypothesisEvent ::
  "(jsstring \<Rightarrow> error + jsvalue) \<Rightarrow> NostrEvent \<Rightarrow> bool" where
  "isValidHypothesisEvent JSON_parse event =
     (let hasHypothesisTag = hasTag event (js ''t'') (js ''hypothesis'');
          hasBlackPaperTag = hasTag event (js ''t'') (js ''blackpaper'')
      in
      case JSON_parse (e_content event) of Inl e \<Rightarrow> False | Inr content \<Rightarrow>
      case getProp content (js ''title'') of Inl e \<Rightarrow> False | Inr title \<Rightarrow>
      case (if truthy title then Inr title else getProp content (js ''body'')) of
        Inl e \<Rightarrow> False
      | Inr titleOrBody \<Rightarrow>
          let hasRequiredContent =
                truthy titleOrBody
                \<and> (list_ex (\<lambda>tag. tagAt tag 0 = String (js ''title'')) (e_tags event)
                     \<or> truthy title)
          in hasHypothesisTag \<and> hasBlackPaperTag \<and> hasRequiredContent)"

text \<open>
  \<open>grown h h'\<close>: the heap \<open>h'\<close> differs from \<open>h\<close> only by replies appended to
  comments, which is all that \<open>buildTree\<close> does to the heap.
\<close>

definition grown :: "heap \<Rightarrow> heap \<Rightarrow> bool" where
  "grown h h' \<longleftrightarrow> (\<forall>x. \<exists>rs. h' x = (h x)\<lparr> replies := replies (h x) @ rs \<rparr>)"

text \<open>
  The thread of a comment, as \<open>flattenThread\<close> lists it: the comment itself and the
  threads of its replies. A comment is in the tree that \<open>buildTree\<close> returns when it is
  in the thread of one of the returned roots.
\<close>

inductive inThread :: "heap \<Rightarrow> ref \<Rightarrow> ref \<Rightarrow> bool" for h :: heap where
  self: "inThread h x x"
| reply: "r \<in> set (replies (h x)) \<Longrightarrow> inThread h r y \<Longrightarrow> inThread h x y"

text \<open>
  \<open>linked h\<close>: every reply that a comment holds has passed the guards of \<open>addReply\<close> on
  the parent id and on the depth. The list \<open>replies\<close> is private and starts empty, and
  \<open>addReply\<close> alone writes it, so this holds of every heap that the code builds.
\<close>

definition linked :: "heap \<Rightarrow> bool" where
  "linked h \<longleftrightarrow>
     (\<forall>x. \<forall>r \<in> set (replies (h x)).
        p_id (c_parent (h r)) = c_id (h x) \<and> c_depth (h r) = c_depth (h x) + 1)"

section \<open>Example values\<close>

text \<open>
  The scenario of the specification: the hypothesis ``Coffee improves focus'' with a body
  of 60 characters in two sentences, in category \<open>psychology\<close>.
\<close>

definition coffee_title :: jsstring where
  "coffee_title = js ''Coffee improves focus''"

definition coffee_body :: jsstring where
  "coffee_body = js ''Caffeine raises alertness. It shortens reaction time too!!!!''"

definition alice :: jsstring where
  "alice = js ''npub1alice''"

definition bob :: jsstring where
  "bob = js ''npub1bobbob''"

definition coffee :: Hypothesis where
  "coffee =
     \<lparr> h_id = js ''ev1'', h_nostrEventId = js ''ev1'', h_title = HypothesisTitle coffee_title,
       h_body = HypothesisBody coffee_body, h_category = PSYCHOLOGY,
       h_creatorPublicKey = alice, h_createdAt = 0,
       sourceStats = \<lparr> supporting = 0, refuting = 0 \<rparr>, commentCount = 0 \<rparr>"

text \<open>A source of evidence for it, before any vote.\<close>

definition study :: Source where
  "study =
     Source_new (js ''ev2'') (js ''ev2'') (js ''ev1'')
       (SourceUrl (js ''https://doi.org/10.1000/coffee''))
       (SourceDescription (js ''A controlled trial of caffeine and sustained attention''))
       SUPPORTING bob 0"

definition carol :: jsstring where
  "carol = js ''npub1carol''"

definition dave :: jsstring where
  "dave = js ''npub1dave0''"

definition erin :: jsstring where
  "erin = js ''npub1erin0''"

text \<open>
  A thread under it: a root comment by \<open>bob\<close> at reference 0 and a reply to it by
  \<open>alice\<close> at reference 1, as \<open>Comment.create\<close> returns them.
\<close>

definition sleep_text :: jsstring where
  "sleep_text = js ''Sleep matters more, surely''"

definition agree_text :: jsstring where
  "agree_text = js ''I agree with that''"

definition root_comment :: Comment where
  "root_comment =
     \<lparr> c_id = js ''c1'', c_nostrEventId = js ''c1'', c_content = CommentContent sleep_text,
       c_parent = \<lparr> p_type = hypothesis, p_id = js ''ev1'', p_authorPublicKey = alice \<rparr>,
       c_authorPublicKey = bob, c_createdAt = 0, c_depth = 0, replies = [], isDeleted = False \<rparr>"

definition reply_comment :: Comment where
  "reply_comment =
     \<lparr> c_id = js ''c2'', c_nostrEventId = js ''c2'', c_content = CommentContent agree_text,
       c_parent = \<lparr> p_type = comment, p_id = js ''c1'', p_authorPublicKey = bob \<rparr>,
       c_authorPublicKey = alice, c_createdAt = 0, c_depth = 1, replies = [], isDeleted = False \<rparr>"

definition thread :: heap where
  "thread = (\<lambda>_. root_comment)(1 := reply_comment)"

text \<open>The same reply with a parent reference that names \<open>alice\<close> as the author of \<open>c1\<close>.\<close>

definition misattributed_reply :: Comment where
  "misattributed_reply =
     reply_comment\<lparr> c_parent := \<lparr> p_type = comment, p_id = js ''c1'', p_authorPublicKey = alice \<rparr> \<rparr>"

text \<open>
  A second root comment under the hypothesis, by \<open>alice\<close>, at reference 2, in a heap
  where the reply is already among the replies of the first root: an earlier
  \<open>addReply\<close> has put it there.
\<close>

definition second_root :: Comment where
  "second_root =
     \<lparr> c_id = js ''c4'', c_nostrEventId = js ''c4'', c_content = CommentContent agree_text,
       c_parent = \<lparr> p_type = hypothesis, p_id = js ''ev1'', p_authorPublicKey = alice \<rparr>,
       c_authorPublicKey = alice, c_createdAt = 0, c_depth = 0, replies = [], isDeleted = False \<rparr>"

definition prelinked_thread :: heap where
  "prelinked_thread = applyCommentOps (thread(2 := second_root)) [AddReply 0 1]"








text \<open>The thread after \<open>markAsDeleted\<close> on its root.\<close>

definition deleted_thread :: heap where
  "deleted_thread = markAsDeleted thread 0"

text \<open>The thread with the misattributed reply in place of the reply.\<close>

definition misattributed_thread :: heap where
  "misattributed_thread = thread(1 := misattributed_reply)"

text \<open>The thread with a second object for the root comment, as a second copy of its event gives.\<close>

definition duplicated_thread :: heap where
  "duplicated_thread = thread(2 := root_comment)"

text \<open>Two runs of votes on the source: one where \<open>alice\<close> changes her mind, one split 3 to 2.\<close>

definition revote_ops :: "VoteOp list" where
  "revote_ops = [AddVote alice 1 0, AddVote bob (- 1) 1, AddVote alice (- 1) 2, RemoveVote carol]"

definition poll_ops :: "VoteOp list" where
  "poll_ops = [AddVote alice 1 0, AddVote bob 1 1, AddVote carol 1 2, AddVote dave (- 1) 3,
               AddVote erin (- 1) 4]"

section \<open>A JSON codec for the examples\<close>

text \<open>
  To run the transformer on an example, \<open>JSON.stringify\<close> and \<open>JSON.parse\<close> need
  values. The serialiser follows ECMAScript's \<open>QuoteJSONString\<close> and writes objects
  whose members are strings; the parser reads what the serialiser writes, with every
  escape of JSON, and rejects the rest with a \<open>SyntaxError\<close>.
\<close>

definition hexDigit :: "nat \<Rightarrow> nat" where
  "hexDigit d = (if d < 10 then 48 + d else 87 + d)"

definition unicodeEscape :: "nat \<Rightarrow> jsstring" where
  "unicodeEscape c =
     [92, 117, hexDigit (c div 4096 mod 16), hexDigit (c div 256 mod 16),
      hexDigit (c div 16 mod 16), hexDigit (c mod 16)]"

definition isHighSurrogate :: "nat \<Rightarrow> bool" where
  "isHighSurrogate c \<longleftrightarrow> 55296 \<le> c \<and> c \<le> 56319"

definition isLowSurrogate :: "nat \<Rightarrow> bool" where
  "isLowSurrogate c \<longleftrightarrow> 56320 \<le> c \<and> c \<le> 57343"

fun quoteJSONChars :: "jsstring \<Rightarrow> jsstring" where
  "quoteJSONChars [] = []"
| "quoteJSONChars (c # cs) =
     (if c = 8 then [92, 98] @ quoteJSONChars cs
      else if c = 9 then [92, 116] @ quoteJSONChars cs
      else if c = 10 then [92, 110] @ quoteJSONChars cs
      else if c = 12 then [92, 102] @ quoteJSONChars cs
      else if c = 13 then [92, 114] @ quoteJSONChars cs
      else if c = 34 then [92, 34] @ quoteJSONChars cs
      else if c = 92 then [92, 92] @ quoteJSONChars cs
      else if c < 32 then unicodeEscape c @ quoteJSONChars cs
      else if isHighSurrogate c then
        (case cs of
           [] \<Rightarrow> unicodeEscape c
         | l # cs' \<Rightarrow>
             if isLowSurrogate l then c # l # quoteJSONChars cs'
             else unicodeEscape c @ quoteJSONChars cs)
      else if isLowSurrogate c then unicodeEscape c @ quoteJSONChars cs
      else c # quoteJSONChars cs)"

definition quoteJSONString :: "jsstring \<Rightarrow> jsstring" where
  "quoteJSONString s = 34 # quoteJSONChars s @ [34]"

fun stringifyMember :: "jsstring \<times> jsvalue \<Rightarrow> jsstring" where
  "stringifyMember (k, String s) = quoteJSONString k @ [58] @ quoteJSONString s"
| "stringifyMember (k, v) = quoteJSONString k @ [58] @ js ''null''"

fun joinMembers :: "jsstring list \<Rightarrow> jsstring" where
  "joinMembers [] = []"
| "joinMembers [m] = m"
| "joinMembers (m # ms) = m @ [44] @ joinMembers ms"

fun stringifyFlat :: "jsvalue \<Rightarrow> jsstring" where
  "stringifyFlat (Object kvs) = [123] @ joinMembers (map stringifyMember kvs) @ [125]"
| "stringifyFlat (String s) = quoteJSONString s"
| "stringifyFlat v = js ''null''"

definition hexValue :: "nat \<Rightarrow> nat option" where
  "hexValue c =
     (if 48 \<le> c \<and> c \<le> 57 then Some (c - 48)
      else if 97 \<le> c \<and> c \<le> 102 then Some (c - 87)
      else if 65 \<le> c \<and> c \<le> 70 then Some (c - 55)
      else None)"

definition unescapeChar :: "nat \<Rightarrow> nat option" where
  "unescapeChar e =
     (if e = 34 \<or> e = 92 \<or> e = 47 then Some e
      else if e = 98 then Some 8
      else if e = 102 then Some 12
      else if e = 110 then Some 10
      else if e = 114 then Some 13
      else if e = 116 then Some 9
      else None)"

datatype ReadMode = Plain | Escape | Hex nat nat

fun readString :: "ReadMode \<Rightarrow> jsstring \<Rightarrow> jsstring \<Rightarrow> (jsstring \<times> jsstring) option" where
  "readString mode acc [] = None"
| "readString Plain acc (c # cs) =
     (if c = 34 then Some (rev acc, cs)
      else if c = 92 then readString Escape acc cs
      else if c < 32 then None
      else readString Plain (c # acc) cs)"
| "readString Escape acc (c # cs) =
     (if c = 117 then readString (Hex 4 0) acc cs
      else case unescapeChar c of
             Some d \<Rightarrow> readString Plain (d # acc) cs
           | None \<Rightarrow> None)"
| "readString (Hex n v) acc (c # cs) =
     (case hexValue c of
        None \<Rightarrow> None
      | Some d \<Rightarrow>
          if n \<le> 1 then readString Plain ((v * 16 + d) # acc) cs
          else readString (Hex (n - 1) (v * 16 + d)) acc cs)"

definition expect :: "nat \<Rightarrow> jsstring \<Rightarrow> jsstring option" where
  "expect c s = (case s of [] \<Rightarrow> None | x # r \<Rightarrow> if x = c then Some r else None)"

definition readQuoted :: "jsstring \<Rightarrow> (jsstring \<times> jsstring) option" where
  "readQuoted s = (case expect 34 s of None \<Rightarrow> None | Some r \<Rightarrow> readString Plain [] r)"

definition readMember :: "jsstring \<Rightarrow> ((jsstring \<times> jsvalue) \<times> jsstring) option" where
  "readMember s =
     (case readQuoted s of
        None \<Rightarrow> None
      | Some kr \<Rightarrow>
          (case expect 58 (snd kr) of
             None \<Rightarrow> None
           | Some r \<Rightarrow>
               (case readQuoted r of
                  None \<Rightarrow> None
                | Some vr \<Rightarrow> Some ((fst kr, String (fst vr)), snd vr))))"

fun readMembers :: "nat \<Rightarrow> jsstring \<Rightarrow> ((jsstring \<times> jsvalue) list \<times> jsstring) option" where
  "readMembers 0 s = None"
| "readMembers (Suc n) s =
     (case readMember s of
        None \<Rightarrow> None
      | Some mr \<Rightarrow>
          (case expect 125 (snd mr) of
             Some r \<Rightarrow> Some ([fst mr], r)
           | None \<Rightarrow>
               (case expect 44 (snd mr) of
                  None \<Rightarrow> None
                | Some r \<Rightarrow>
                    (case readMembers n r of
                       None \<Rightarrow> None
                     | Some kr \<Rightarrow> Some (fst mr # fst kr, snd kr)))))"

definition parseFlat :: "jsstring \<Rightarrow> error + jsvalue" where
  "parseFlat s =
     (case expect 123 s of
        None \<Rightarrow> Inl SyntaxError
      | Some r \<Rightarrow>
          if r = [125] then Inr (Object [])
          else
            (case readMembers (length r) r of
               None \<Rightarrow> Inl SyntaxError
             | Some kr \<Rightarrow> if snd kr = [] then Inr (Object (fst kr)) else Inl SyntaxError))"

text \<open>A signer for the examples: every key belongs to \<open>alice\<close>, every event hashes to \<open>ev1\<close>.\<close>

definition toy_tools :: NostrTools where
  "toy_tools =
     \<lparr> nip19_decode = (\<lambda>key. Inr (drop 4 key)),
       getPublicKey = (\<lambda>key. Inr alice),
       getEventHash = (\<lambda>event. js ''ev1''),
       schnorr_sign = (\<lambda>hash key. js ''sig'') \<rparr>"

text \<open>The wire event of the coffee hypothesis, signed at time 1700000000.\<close>

definition coffee_event :: NostrEvent where
  "coffee_event =
     \<lparr> e_id = js ''ev1'', e_kind = 1, e_created_at = 1700000000,
       e_tags = [[js ''t'', js ''hypothesis''], [js ''t'', js ''blackpaper''],
                 [js ''category'', js ''psychology''], [js ''title'', coffee_title]],
       e_content = stringifyFlat
                     (Object [(js ''title'', String coffee_title),
                              (js ''body'', String coffee_body)]),
       e_pubkey = alice, e_sig = js ''sig'' \<rparr>"

section \<open>Evaluation of the examples\<close>

lemmas eval_defs = js_def trim_def isWhiteSpace_def isAsciiLetter_def isSentenceEnd_def

lemma coffee_created:
  "Hypothesis_create (js ''ev1'') (js ''ev1'') (String coffee_title) (String coffee_body)
     (String (js ''psychology'')) alice 0 = Inr coffee"
  by (simp add: Hypothesis_create_def HypothesisTitle_create_def HypothesisBody_create_def
      coffee_def coffee_title_def coffee_body_def alice_def AcademicCategory_all_def eval_defs)

section \<open>HypothesisTitle: the length bounds are on the trimmed title\<close>

lemma length_trim_le: "length (trim s) \<le> length s"
proof -
  have "length (trim s) \<le> length (dropWhile isWhiteSpace s)"
    unfolding trim_def
    using length_dropWhile_le [of isWhiteSpace "rev (dropWhile isWhiteSpace s)"] by simp
  also have "\<dots> \<le> length s"
    by (rule length_dropWhile_le)
  finally show ?thesis .
qed

lemma letter_not_space: "isAsciiLetter c \<Longrightarrow> \<not> isWhiteSpace c"
  by (auto simp: isAsciiLetter_def isWhiteSpace_def)

lemma trim_keeps_first:
  assumes "\<not> isWhiteSpace c"
  shows "trim (c # cs) = c # rev (dropWhile isWhiteSpace (rev cs))"
  using assms by (simp add: trim_def dropWhile_append3)

lemma startsWithLetter_trim: "startsWithLetter T \<Longrightarrow> startsWithLetter (trim T)"
  by (cases T) (simp_all add: trim_keeps_first letter_not_space)

lemma dropWhile_spaces:
  "dropWhile isWhiteSpace (replicate n 32 @ ys) = dropWhile isWhiteSpace ys"
  by (induction n) (simp_all add: isWhiteSpace_def)

lemma trim_trailing_spaces:
  assumes "\<not> isWhiteSpace c"
  shows "trim (c # cs @ replicate n 32) = trim (c # cs)"
  using assms by (simp add: trim_keeps_first dropWhile_spaces)

lemma trim_coffee_title: "trim coffee_title = coffee_title"
  by (simp add: coffee_title_def eval_defs)

text \<open>
  Claim C8, as stated, fails: the factory measures the trimmed title. A title of ten
  characters that starts with a letter is rejected when white space makes up part of the
  ten, and a title of 321 characters is accepted when its trimmed form has 21.
\<close>

theorem HypothesisTitle_create_counterexample:
  "length (js ''Coffee    '') = 10 \<and> startsWithLetter (js ''Coffee    '')
   \<and> HypothesisTitle_create (js ''Coffee    '')
       = Inl (Error ''Hypothesis title must be at least 10 characters to be descriptive'')
   \<and> length (coffee_title @ replicate 300 32) = 321
   \<and> startsWithLetter (coffee_title @ replicate 300 32)
   \<and> HypothesisTitle_create (coffee_title @ replicate 300 32)
       = Inr (HypothesisTitle coffee_title)"
proof -
  have short: "length (js ''Coffee    '') = 10 \<and> startsWithLetter (js ''Coffee    '')
     \<and> HypothesisTitle_create (js ''Coffee    '')
       = Inl (Error ''Hypothesis title must be at least 10 characters to be descriptive'')"
    by (simp add: HypothesisTitle_create_def eval_defs)
  have hd: "coffee_title = 67 # js ''offee improves focus''"
    by (simp add: coffee_title_def js_def)
  have "trim (67 # js ''offee improves focus'' @ replicate 300 32)
      = trim (67 # js ''offee improves focus'')"
    by (rule trim_trailing_spaces) (simp add: isWhiteSpace_def)
  then have t: "trim (coffee_title @ replicate 300 32) = coffee_title"
    using trim_coffee_title by (simp add: hd)
  have len: "length coffee_title = 21" and letter: "startsWithLetter coffee_title"
    by (simp_all add: coffee_title_def js_def isAsciiLetter_def)
  have long: "length (coffee_title @ replicate 300 32) = 321"
    by (simp add: len)
  have letter': "startsWithLetter (coffee_title @ replicate 300 32)"
    by (simp add: hd isAsciiLetter_def)
  have "HypothesisTitle_create (coffee_title @ replicate 300 32)
      = Inr (HypothesisTitle coffee_title)"
    by (simp add: HypothesisTitle_create_def t len letter)
  with short long letter' show ?thesis
    by simp
qed

text \<open>
  Claim C8, amended. For every string \<open>T\<close> whose first character is one of the letters
  \<open>a-z\<close>, \<open>A-Z\<close> and whose trimmed form has between 10 and 256 characters,
  \<open>HypothesisTitle.create(T)\<close> succeeds and \<open>toString()\<close> returns the trimmed \<open>T\<close>;
  for every \<open>T\<close> whose trimmed form has fewer than 10 or more than 256 characters
  creation fails, and so it does for every \<open>T\<close> with fewer than 10 characters.
\<close>

theorem HypothesisTitle_create_trimmed_bounds:
  "(10 \<le> length (trim T) \<and> length (trim T) \<le> 256 \<and> startsWithLetter T \<longrightarrow>
      HypothesisTitle_create T = Inr (HypothesisTitle (trim T))
      \<and> HypothesisTitle_toString (HypothesisTitle (trim T)) = trim T)
   \<and> (length (trim T) < 10 \<or> 256 < length (trim T) \<longrightarrow>
        (\<exists>e. HypothesisTitle_create T = Inl e))
   \<and> (length T < 10 \<longrightarrow> (\<exists>e. HypothesisTitle_create T = Inl e))"
proof -
  have ok: "10 \<le> length (trim T) \<and> length (trim T) \<le> 256 \<and> startsWithLetter T \<longrightarrow>
      HypothesisTitle_create T = Inr (HypothesisTitle (trim T))"
    by (simp add: HypothesisTitle_create_def Let_def startsWithLetter_trim)
  have bad: "length (trim T) < 10 \<or> 256 < length (trim T) \<longrightarrow>
      (\<exists>e. HypothesisTitle_create T = Inl e)"
    by (auto simp: HypothesisTitle_create_def Let_def)
  have short: "length T < 10 \<longrightarrow> (\<exists>e. HypothesisTitle_create T = Inl e)"
    using bad length_trim_le [of T] by auto
  from ok bad short show ?thesis
    by simp
qed

theorem HypothesisTitle_create_trimmed_bounds_witness:
  "10 \<le> length (trim coffee_title) \<and> length (trim coffee_title) \<le> 256
   \<and> startsWithLetter coffee_title
   \<and> HypothesisTitle_create coffee_title = Inr (HypothesisTitle coffee_title)
   \<and> length (js ''Coffee'') < 10
   \<and> HypothesisTitle_create (js ''Coffee'')
       = Inl (Error ''Hypothesis title must be at least 10 characters to be descriptive'')"
proof -
  have a: "10 \<le> length (trim coffee_title) \<and> length (trim coffee_title) \<le> 256
      \<and> startsWithLetter coffee_title"
    by (simp add: coffee_title_def eval_defs)
  have b: "length (js ''Coffee'') < 10"
    by (simp add: js_def)
  from HypothesisTitle_create_trimmed_bounds [of "js ''Coffee''"] b
  obtain e where e: "HypothesisTitle_create (js ''Coffee'') = Inl e"
    by blast
  then have "e = Error ''Hypothesis title must be at least 10 characters to be descriptive''"
    by (simp add: HypothesisTitle_create_def eval_defs)
  with e a b HypothesisTitle_create_trimmed_bounds [of coffee_title] trim_coffee_title
  show ?thesis
    by simp
qed

section \<open>Vote: the value and the voter key are both validated\<close>

text \<open>
  Claim C5, as stated, fails: with the valid value 1 and a voter key of five characters
  \<open>Vote.create\<close> throws.
\<close>

theorem Vote_create_counterexample:
  "Vote_create 1 (js ''npub1'') 0 = Inl (Error ''Valid voter public key required'')"
  by (simp add: Vote_create_def js_def)

text \<open>
  Claim C5, amended. \<open>Vote.create(v, voter)\<close> succeeds if and only if \<open>v\<close> is 1 or
  \<open>-1\<close> and the voter key has at least ten characters; for every other numeric value,
  \<open>0\<close> included, it fails with the error on the vote value, whatever the voter key.
\<close>

theorem Vote_create_succeeds_iff:
  "((\<exists>vote. Vote_create v k t = Inr vote) \<longleftrightarrow> (v = 1 \<or> v = - 1) \<and> 10 \<le> length k)
   \<and> (v \<noteq> 1 \<and> v \<noteq> - 1 \<longrightarrow>
        Vote_create v k t = Inl (Error ''Vote value must be +1 (upvote) or -1 (downvote)''))"
  by (auto simp: Vote_create_def)

theorem Vote_create_succeeds_iff_witness:
  "(0::real) \<noteq> 1 \<and> (0::real) \<noteq> - 1
   \<and> Vote_create 0 alice 0 = Inl (Error ''Vote value must be +1 (upvote) or -1 (downvote)'')
   \<and> Vote_create (- 1) alice 7
       = Inr \<lparr> v_value = - 1, v_voterPublicKey = alice, v_createdAt = 7 \<rparr>"
proof -
  have "\<exists>vote. Vote_create (- 1) alice 7 = Inr vote"
    using Vote_create_succeeds_iff [of "- 1" alice 7] by (simp add: alice_def js_def)
  then have "Vote_create (- 1) alice 7
      = Inr \<lparr> v_value = - 1, v_voterPublicKey = alice, v_createdAt = 7 \<rparr>"
    by (auto simp: Vote_create_def split: if_splits)
  with Vote_create_succeeds_iff [of 0 alice 0] show ?thesis
    by simp
qed

section \<open>Comment: replies and deletion\<close>

lemma addReply_deleted:
  "isDeleted (h c) \<Longrightarrow> addReply h c r = Inl (Error ''Cannot reply to deleted comment'')"
  by (simp add: addReply_def)

lemma addReply_Inr:
  assumes "addReply h p r = Inr h'"
  shows "h' = h(p := (h p)\<lparr> replies := replies (h p) @ [r] \<rparr>)"
  using assms by (auto simp: addReply_def split: if_splits sum.splits)

lemma applyCommentOp_deleted:
  assumes "isDeleted (h c)"
  shows "isDeleted (applyCommentOp h op c) \<and> replies (applyCommentOp h op c) = replies (h c)"
proof (cases op)
  case (AddReply this reply)
  show ?thesis
  proof (cases "addReply h this reply")
    case (Inl e)
    with AddReply assms show ?thesis by simp
  next
    case (Inr h')
    have "this \<noteq> c"
      using Inr assms by (auto simp: addReply_deleted)
    with AddReply Inr assms addReply_Inr [OF Inr] show ?thesis by simp
  qed
next
  case (MarkAsDeleted this)
  with assms show ?thesis by (simp add: markAsDeleted_def)
qed

lemma applyCommentOps_deleted:
  assumes "isDeleted (h c)"
  shows "isDeleted (applyCommentOps h ops c) \<and> replies (applyCommentOps h ops c) = replies (h c)"
  using assms
proof (induction ops arbitrary: h)
  case Nil
  then show ?case by (simp add: applyCommentOps_def)
next
  case (Cons op ops)
  from applyCommentOp_deleted [where h = h and c = c and op = op] Cons.prems
  have d: "isDeleted (applyCommentOp h op c)"
    and r: "replies (applyCommentOp h op c) = replies (h c)"
    by simp_all
  from Cons.IH [where h = "applyCommentOp h op"] d r show ?case
    by (simp add: applyCommentOps_def)
qed

text \<open>
  Claim C10. Once \<open>markAsDeleted()\<close> has been called on a comment, every later
  \<open>addReply\<close> on it throws, whatever the reply (so also when its parent reference
  matches and its depth is one more), and whatever operations ran in between; the list of
  replies of the comment stays what it was.
\<close>

theorem deleted_comment_rejects_replies:
  "addReply (applyCommentOps (markAsDeleted h c) ops) c r
     = Inl (Error ''Cannot reply to deleted comment'')
   \<and> replies (applyCommentOps (markAsDeleted h c) ops c) = replies (h c)"
proof -
  have d: "isDeleted (markAsDeleted h c c)"
    by (simp add: markAsDeleted_def)
  have r: "replies (markAsDeleted h c c) = replies (h c)"
    by (simp add: markAsDeleted_def)
  from applyCommentOps_deleted [where h = "markAsDeleted h c" and c = c and ops = ops] d r
  have "isDeleted (applyCommentOps (markAsDeleted h c) ops c)"
    and "replies (applyCommentOps (markAsDeleted h c) ops c) = replies (h c)"
    by simp_all
  then show ?thesis
    by (simp add: addReply_deleted)
qed



lemma addReply_accepts:
  assumes "\<not> isDeleted (h p)"
    and "CommentParent_new comment (c_id (h p)) (c_authorPublicKey (h p)) = Inr (c_parent (h r))"
    and "c_depth (h r) = c_depth (h p) + 1"
  shows "addReply h p r = Inr (h(p := (h p)\<lparr> replies := replies (h p) @ [r] \<rparr>))"
  using assms by (simp add: addReply_def CommentParent_equals_def)


lemma CommentParent_new_type:
  assumes "CommentParent_new t pid pa = Inr P"
  shows "CommentParent_new t' pid pa = Inr (P\<lparr> p_type := t' \<rparr>) \<and> p_type P = t"
  using assms by (auto simp: CommentParent_new_def split: if_splits)



section \<open>Source: votes\<close>

lemma keys_Map_set: "fst ` set (Map_set k v m) = insert k (fst ` set m)"
proof (induction m)
  case Nil
  show ?case by simp
next
  case (Cons e m)
  obtain k' v' where e: "e = (k', v')" by (cases e)
  show ?case
    by (cases "k' = k") (simp_all add: e Cons.IH insert_commute)
qed

lemma distinct_Map_set: "distinct (map fst m) \<Longrightarrow> distinct (map fst (Map_set k v m))"
proof (induction m)
  case Nil
  then show ?case by simp
next
  case (Cons e m)
  obtain k' v' where e: "e = (k', v')" by (cases e)
  from Cons have d: "distinct (map fst (Map_set k v m))" and k': "k' \<notin> fst ` set m"
    by (simp_all add: e)
  show ?case
  proof (cases "k' = k")
    case True
    with Cons.prems show ?thesis by (simp add: e)
  next
    case False
    with k' have "k' \<notin> fst ` set (Map_set k v m)"
      by (simp add: keys_Map_set)
    with d False show ?thesis by (simp add: e)
  qed
qed

lemma keys_Map_delete: "fst ` set (Map_delete k m) = fst ` set m - {k}"
proof (induction m)
  case Nil
  show ?case by simp
next
  case (Cons e m)
  obtain k' v' where e: "e = (k', v')" by (cases e)
  show ?case
    by (cases "k' = k") (simp_all add: e Cons.IH insert_Diff_if)
qed

lemma distinct_Map_delete: "distinct (map fst m) \<Longrightarrow> distinct (map fst (Map_delete k m))"
proof (induction m)
  case Nil
  then show ?case by simp
next
  case (Cons e m)
  obtain k' v' where e: "e = (k', v')" by (cases e)
  from Cons have d: "distinct (map fst (Map_delete k m))" and k': "k' \<notin> fst ` set m"
    by (simp_all add: e)
  from k' have "k' \<notin> fst ` set (Map_delete k m)"
    by (simp add: keys_Map_delete)
  with d show ?case by (simp add: e)
qed

lemma Map_get_set: "Map_get (Map_set k v m) k = Some v"
proof (induction m)
  case Nil
  show ?case by simp
next
  case (Cons e m)
  obtain k' v' where e: "e = (k', v')" by (cases e)
  show ?case
    by (cases "k' = k") (simp_all add: e Cons.IH)
qed

lemma length_Map_set_present:
  "k \<in> fst ` set m \<Longrightarrow> length (Map_set k v m) = length m"
proof (induction m)
  case Nil
  then show ?case by simp
next
  case (Cons e m)
  obtain k' v' where e: "e = (k', v')" by (cases e)
  show ?case
  proof (cases "k' = k")
    case True
    then show ?thesis by (simp add: e)
  next
    case False
    with Cons.prems have "k \<in> fst ` set m"
      by (simp add: e)
    with Cons.IH False show ?thesis by (simp add: e)
  qed
qed

lemma filter_key_absent:
  "k \<notin> fst ` set m \<Longrightarrow> filter (\<lambda>entry. fst entry = k) m = []"
  by (induction m) auto

lemma distinct_one_entry:
  "distinct (map fst m) \<Longrightarrow> length (filter (\<lambda>entry. fst entry = k) m) \<le> 1"
proof (induction m)
  case Nil
  show ?case by simp
next
  case (Cons e m)
  show ?case
  proof (cases "fst e = k")
    case True
    with Cons.prems have "k \<notin> fst ` set m"
      by simp
    with True show ?thesis by (simp add: filter_key_absent)
  next
    case False
    with Cons show ?thesis by simp
  qed
qed

lemma key_present_entry:
  "k \<in> fst ` set m \<Longrightarrow> 1 \<le> length (filter (\<lambda>entry. fst entry = k) m)"
proof (induction m)
  case Nil
  then show ?case by simp
next
  case (Cons e m)
  show ?case
  proof (cases "fst e = k")
    case True
    then show ?thesis by simp
  next
    case False
    with Cons.prems have "k \<in> fst ` set m"
      by auto
    with Cons.IH False show ?thesis by simp
  qed
qed

lemma Vote_create_Inr:
  assumes "Vote_create v k now = Inr vote"
  shows "vote = \<lparr> v_value = v, v_voterPublicKey = k, v_createdAt = now \<rparr> \<and> (v = 1 \<or> v = - 1)"
proof (cases "v \<noteq> 1 \<and> v \<noteq> - 1")
  case True
  with assms show ?thesis
    by (simp add: Vote_create_def)
next
  case False
  show ?thesis
  proof (cases "k = [] \<or> length k < 10")
    case True
    have "Vote_create v k now = Inl (Error ''Valid voter public key required'')"
      unfolding Vote_create_def by (simp only: if_not_P [OF False] if_P [OF True])
    with assms show ?thesis
      by simp
  next
    case ok: False
    have "Vote_create v k now = Inr \<lparr> v_value = v, v_voterPublicKey = k, v_createdAt = now \<rparr>"
      unfolding Vote_create_def by (simp only: if_not_P [OF False] if_not_P [OF ok])
    with assms False show ?thesis
      by simp
  qed
qed

lemma addVote_Inr:
  assumes "addVote s k v now = Inr s'"
  shows "\<exists>vote. s' = s\<lparr> votes := Map_set k vote (votes s) \<rparr> \<and> v_value vote = v
           \<and> (v = 1 \<or> v = - 1)"
proof (cases "Vote_create v k now")
  case (Inl e)
  with assms show ?thesis
    by (simp add: addVote_def)
next
  case (Inr vote)
  from Vote_create_Inr [OF Inr] have "v_value vote = v" and "v = 1 \<or> v = - 1"
    by simp_all
  moreover from assms Inr have "s' = s\<lparr> votes := Map_set k vote (votes s) \<rparr>"
    by (simp add: addVote_def)
  ultimately show ?thesis
    by blast
qed

lemma applyVoteOp_distinct:
  assumes "distinct (map fst (votes s))"
  shows "distinct (map fst (votes (applyVoteOp s op)))"
proof (cases op)
  case (AddVote k v now)
  show ?thesis
  proof (cases "addVote s k v now")
    case (Inl e)
    with AddVote assms show ?thesis by simp
  next
    case (Inr s')
    from addVote_Inr [OF Inr] assms AddVote Inr show ?thesis
      by (auto simp: distinct_Map_set)
  qed
next
  case (RemoveVote k)
  with assms show ?thesis
    by (simp add: removeVote_def distinct_Map_delete)
qed

lemma applyVoteOps_distinct:
  assumes "distinct (map fst (votes s))"
  shows "distinct (map fst (votes (applyVoteOps s ops)))"
  using assms
proof (induction ops arbitrary: s)
  case Nil
  then show ?case by (simp add: applyVoteOps_def)
next
  case (Cons op ops)
  from Cons.IH [OF applyVoteOp_distinct [OF Cons.prems]] show ?case
    by (simp add: applyVoteOps_def)
qed

text \<open>
  Claim C9. After any sequence of \<open>addVote\<close> and \<open>removeVote\<close> on a source that starts
  with the empty vote map of its constructor, the map holds at most one entry for every
  voter; a successful \<open>addVote\<close> leaves exactly one, and \<open>getUserVote\<close> returns its
  value; a second \<open>addVote\<close> by the same voter makes \<open>getUserVote\<close> return the later
  value and leaves \<open>getTotalVotes()\<close> unchanged.
\<close>

theorem one_vote_per_voter:
  "(votes s0 = [] \<longrightarrow> votesOf (applyVoteOps s0 ops) k \<le> 1)
   \<and> (votes s0 = [] \<and> addVote (applyVoteOps s0 ops) k v now = Inr s' \<longrightarrow>
        votesOf s' k = 1 \<and> getUserVote s' k = Some v)
   \<and> (addVote s k v1 t1 = Inr s1 \<and> addVote s1 k v2 t2 = Inr s2 \<longrightarrow>
        getUserVote s1 k = Some v1 \<and> getUserVote s2 k = Some v2
        \<and> getTotalVotes s2 = getTotalVotes s1)"
proof -
  have reach: "votes s0 = [] \<longrightarrow> distinct (map fst (votes (applyVoteOps s0 ops)))"
    using applyVoteOps_distinct [of s0 ops] by simp
  have a: "votes s0 = [] \<longrightarrow> votesOf (applyVoteOps s0 ops) k \<le> 1"
    using reach distinct_one_entry [of "votes (applyVoteOps s0 ops)" k] by (simp add: votesOf_def)
  have b: "votes s0 = [] \<and> addVote (applyVoteOps s0 ops) k v now = Inr s' \<longrightarrow>
        votesOf s' k = 1 \<and> getUserVote s' k = Some v"
  proof (intro impI, elim conjE)
    assume e: "votes s0 = []" and add: "addVote (applyVoteOps s0 ops) k v now = Inr s'"
    let ?s = "applyVoteOps s0 ops"
    from addVote_Inr [OF add] obtain vote
      where s': "s' = ?s\<lparr> votes := Map_set k vote (votes ?s) \<rparr>" and val: "v_value vote = v"
      by blast
    from reach e have "distinct (map fst (votes s'))"
      by (simp add: s' distinct_Map_set)
    then have "votesOf s' k \<le> 1"
      unfolding votesOf_def by (rule distinct_one_entry)
    moreover have "1 \<le> votesOf s' k"
      unfolding votesOf_def by (rule key_present_entry) (simp add: s' keys_Map_set)
    ultimately have "votesOf s' k = 1"
      by simp
    moreover have "getUserVote s' k = Some v"
      by (simp add: getUserVote_def s' Map_get_set val)
    ultimately show "votesOf s' k = 1 \<and> getUserVote s' k = Some v"
      by simp
  qed
  have c: "addVote s k v1 t1 = Inr s1 \<and> addVote s1 k v2 t2 = Inr s2 \<longrightarrow>
        getUserVote s1 k = Some v1 \<and> getUserVote s2 k = Some v2
        \<and> getTotalVotes s2 = getTotalVotes s1"
  proof (intro impI, elim conjE)
    assume one: "addVote s k v1 t1 = Inr s1" and two: "addVote s1 k v2 t2 = Inr s2"
    from addVote_Inr [OF one] obtain vote1
      where s1: "s1 = s\<lparr> votes := Map_set k vote1 (votes s) \<rparr>" and val1: "v_value vote1 = v1"
      by blast
    from addVote_Inr [OF two] obtain vote2
      where s2: "s2 = s1\<lparr> votes := Map_set k vote2 (votes s1) \<rparr>" and val2: "v_value vote2 = v2"
      by blast
    have present: "k \<in> fst ` set (votes s1)"
      by (simp add: s1 keys_Map_set)
    have "getTotalVotes s2 = getTotalVotes s1"
      using present by (simp add: getTotalVotes_def Map_size_def s2 length_Map_set_present)
    moreover have "getUserVote s1 k = Some v1"
      by (simp add: getUserVote_def s1 Map_get_set val1)
    moreover have "getUserVote s2 k = Some v2"
      by (simp add: getUserVote_def s2 Map_get_set val2)
    ultimately show "getUserVote s1 k = Some v1 \<and> getUserVote s2 k = Some v2
        \<and> getTotalVotes s2 = getTotalVotes s1"
      by simp
  qed
  from a b c show ?thesis
    by blast
qed

(* C6 *)

lemma countVotes_fold:
  "fold (\<lambda>vote (upvotes, downvotes).
             if isUpvote vote then (upvotes + 1, downvotes) else (upvotes, downvotes + 1))
          vs (u, d)
   = (u + length (filter isUpvote vs), d + length (filter (\<lambda>v. \<not> isUpvote v) vs))"
  by (induction vs arbitrary: u d) auto

lemma countVotes_eq:
  "countVotes vs = (length (filter isUpvote vs), length (filter (\<lambda>v. \<not> isUpvote v) vs))"
  by (simp add: countVotes_def countVotes_fold)

lemma downvotes_of_valid:
  assumes "list_all (\<lambda>v. v_value v = 1 \<or> v_value v = - 1) vs"
  shows "filter (\<lambda>v. \<not> isUpvote v) vs = filter isDownvote vs"
  using assms by (induction vs) (auto simp: isUpvote_def isDownvote_def)

lemma Map_set_values_valid:
  assumes "list_all P (map snd m)" and "P v"
  shows "list_all P (map snd (Map_set k v m))"
  using assms by (induction m) auto

lemma Map_delete_values_valid:
  assumes "list_all P (map snd m)"
  shows "list_all P (map snd (Map_delete k m))"
  using assms by (induction m) auto

lemma applyVoteOp_valid:
  assumes "validVotes s"
  shows "validVotes (applyVoteOp s op)"
proof (cases op)
  case (AddVote k v now)
  show ?thesis
  proof (cases "addVote s k v now")
    case (Inl e)
    with AddVote assms show ?thesis by simp
  next
    case (Inr s')
    from addVote_Inr [OF Inr] obtain vote
      where "s' = s\<lparr> votes := Map_set k vote (votes s) \<rparr>" and "v_value vote = v" and "v = 1 \<or> v = - 1"
      by blast
    with assms AddVote Inr show ?thesis
      by (simp add: validVotes_def Map_values_def Map_set_values_valid)
  qed
next
  case (RemoveVote k)
  with assms show ?thesis
    by (simp add: removeVote_def validVotes_def Map_values_def Map_delete_values_valid)
qed

lemma applyVoteOps_valid:
  assumes "validVotes s"
  shows "validVotes (applyVoteOps s ops)"
  using assms
proof (induction ops arbitrary: s)
  case Nil
  then show ?case by (simp add: applyVoteOps_def)
next
  case (Cons op ops)
  from Cons.IH [OF applyVoteOp_valid [OF Cons.prems]] show ?case
    by (simp add: applyVoteOps_def)
qed

lemma length_filter_split:
  "length vs = length (filter P vs) + length (filter (\<lambda>v. \<not> P v) vs)"
  by (induction vs) auto

text \<open>
  Claim C6. For a source whose vote map, built by \<open>addVote\<close> and \<open>removeVote\<close>, holds
  \<open>n\<close> upvotes and \<open>m\<close> downvotes, these are all its votes; with \<open>n + m \<ge> 5\<close> the
  source is controversial exactly when \<open>min(n, m) / max(n, m) > 0.6\<close>, and with
  \<open>n + m < 5\<close> it is not controversial.
\<close>

theorem Source_isControversial_ratio:
  assumes "votes s0 = []"
    and "s = applyVoteOps s0 ops"
    and "n = length (filter isUpvote (Map_values (votes s)))"
    and "m = length (filter isDownvote (Map_values (votes s)))"
  shows "getTotalVotes s = n + m
       \<and> (5 \<le> n + m \<longrightarrow> (Source_isControversial s \<longleftrightarrow> real (min n m) / real (max n m) > 0.6))
       \<and> (n + m < 5 \<longrightarrow> \<not> Source_isControversial s)"
proof -
  have "validVotes s0"
    using assms(1) by (simp add: validVotes_def Map_values_def)
  then have "validVotes s"
    unfolding assms(2) by (rule applyVoteOps_valid)
  then have down: "filter (\<lambda>v. \<not> isUpvote v) (Map_values (votes s)) = filter isDownvote (Map_values (votes s))"
    unfolding validVotes_def by (rule downvotes_of_valid)
  have cnt: "countVotes (Map_values (votes s)) = (n, m)"
    by (simp add: countVotes_eq down assms(3,4))
  have total: "getTotalVotes s = n + m"
    using length_filter_split [of "Map_values (votes s)" isUpvote]
    by (simp add: getTotalVotes_def Map_size_def Map_values_def down [unfolded Map_values_def] assms(3,4))
  have big: "5 \<le> n + m \<longrightarrow> (Source_isControversial s \<longleftrightarrow> real (min n m) / real (max n m) > 0.6)"
    by (simp add: Source_isControversial_def total cnt)
  have small: "n + m < 5 \<longrightarrow> \<not> Source_isControversial s"
    by (simp add: Source_isControversial_def total)
  from total big small show ?thesis
    by blast
qed

section \<open>CommentTreeBuilder\<close>

lemma grown_refl: "grown h h"
  unfolding grown_def
proof
  fix x
  have "h x = (h x)\<lparr> replies := replies (h x) @ [] \<rparr>" by simp
  then show "\<exists>rs. h x = (h x)\<lparr> replies := replies (h x) @ rs \<rparr>" ..
qed

lemma grown_trans:
  assumes "grown h1 h2" and "grown h2 h3"
  shows "grown h1 h3"
  unfolding grown_def
proof
  fix x
  from assms(1) obtain rs where a: "h2 x = (h1 x)\<lparr> replies := replies (h1 x) @ rs \<rparr>"
    unfolding grown_def by blast
  from assms(2) obtain rs' where b: "h3 x = (h2 x)\<lparr> replies := replies (h2 x) @ rs' \<rparr>"
    unfolding grown_def by blast
  have "h3 x = (h1 x)\<lparr> replies := replies (h1 x) @ (rs @ rs') \<rparr>"
    by (simp add: a b)
  then show "\<exists>rs. h3 x = (h1 x)\<lparr> replies := replies (h1 x) @ rs \<rparr>" ..
qed

lemma addReply_grown:
  assumes "addReply h p r = Inr h'"
  shows "grown h h'"
  unfolding grown_def
proof
  fix x
  show "\<exists>rs. h' x = (h x)\<lparr> replies := replies (h x) @ rs \<rparr>"
  proof (cases "x = p")
    case True
    then have "h' x = (h x)\<lparr> replies := replies (h x) @ [r] \<rparr>"
      by (simp add: addReply_Inr [OF assms])
    then show ?thesis ..
  next
    case False
    then have "h' x = (h x)\<lparr> replies := replies (h x) @ [] \<rparr>"
      by (simp add: addReply_Inr [OF assms])
    then show ?thesis ..
  qed
qed

lemma grown_fields:
  assumes "grown h h'"
  shows "c_id (h' x) = c_id (h x)" and "c_parent (h' x) = c_parent (h x)"
    and "c_authorPublicKey (h' x) = c_authorPublicKey (h x)" and "c_depth (h' x) = c_depth (h x)"
    and "isDeleted (h' x) = isDeleted (h x)" and "set (replies (h x)) \<subseteq> set (replies (h' x))"
proof -
  from assms obtain rs where "h' x = (h x)\<lparr> replies := replies (h x) @ rs \<rparr>"
    unfolding grown_def by blast
  then show "c_id (h' x) = c_id (h x)" and "c_parent (h' x) = c_parent (h x)"
    and "c_authorPublicKey (h' x) = c_authorPublicKey (h x)" and "c_depth (h' x) = c_depth (h x)"
    and "isDeleted (h' x) = isDeleted (h x)" and "set (replies (h x)) \<subseteq> set (replies (h' x))"
    by simp_all
qed

lemma grown_isRootComment:
  assumes "grown h h'"
  shows "isRootComment (h' x) = isRootComment (h x)"
  by (simp add: isRootComment_def isRootLevel_def grown_fields [OF assms])

lemma linkComments_Cons:
  "linkComments m (c # cs) h roots =
     linkComments m cs (fst (linkStep m c h roots)) (snd (linkStep m c h roots))"
  by (simp add: case_prod_unfold)

lemma linkStep_grown: "grown h (fst (linkStep m c h roots))"
  by (auto simp: linkStep_def grown_refl addReply_grown split: option.splits sum.splits)

lemma linkStep_roots:
  "set (snd (linkStep m c h roots)) = (if isRootComment (h c) then insert c (set roots) else set roots)"
  by (auto simp: linkStep_def split: option.splits sum.splits)

lemma linkComments_grown: "grown h (fst (linkComments m cs h roots))"
proof (induction cs arbitrary: h roots)
  case Nil
  show ?case by (simp add: grown_refl)
next
  case (Cons c cs)
  show ?case
    unfolding linkComments_Cons
    by (rule grown_trans [OF linkStep_grown Cons.IH])
qed

lemma linkComments_roots:
  "set (snd (linkComments m cs h roots)) = set roots \<union> {c \<in> set cs. isRootComment (h c)}"
proof (induction cs arbitrary: h roots)
  case Nil
  show ?case by simp
next
  case (Cons c cs)
  have g: "grown h (fst (linkStep m c h roots))"
    by (rule linkStep_grown)
  show ?case
    unfolding linkComments_Cons Cons.IH linkStep_roots
    by (auto simp: grown_isRootComment [OF g])
qed

lemma indexComments_absent:
  assumes "\<forall>c \<in> set cs. c_id (h c) \<noteq> k"
  shows "indexComments h cs m k = m k"
  using assms by (induction cs arbitrary: m) auto

lemma indexComments_append:
  "indexComments h (xs @ ys) m = indexComments h ys (indexComments h xs m)"
  by (induction xs arbitrary: m) simp_all

lemma indexComments_last:
  assumes "\<forall>c \<in> set post. c_id (h c) \<noteq> c_id (h a)"
  shows "indexComments h (pre @ a # post) m (c_id (h a)) = Some a"
  using indexComments_absent [OF assms] by (simp add: indexComments_append)

text \<open>The reply is linked.\<close>

lemma linkComments_links:
  assumes "b \<in> set cs"
    and "m (p_id (c_parent (h b))) = Some a"
    and "\<not> isRootComment (h b)"
    and "\<not> isDeleted (h a)"
    and "CommentParent_new comment (c_id (h a)) (c_authorPublicKey (h a)) = Inr (c_parent (h b))"
    and "c_depth (h b) = c_depth (h a) + 1"
  shows "b \<in> set (replies (fst (linkComments m cs h roots) a))"
  using assms
proof (induction cs arbitrary: h roots)
  case Nil
  then show ?case by simp
next
  case (Cons c cs)
  let ?h1 = "fst (linkStep m c h roots)" and ?r1 = "snd (linkStep m c h roots)"
  have g1: "grown h ?h1"
    by (rule linkStep_grown)
  have g2: "grown ?h1 (fst (linkComments m cs ?h1 ?r1))"
    by (rule linkComments_grown)
  show ?case
  proof (cases "c = b")
    case True
    have "addReply h a b = Inr (h(a := (h a)\<lparr> replies := replies (h a) @ [b] \<rparr>))"
      by (rule addReply_accepts) (use Cons.prems in simp_all)
    with Cons.prems True have "?h1 = h(a := (h a)\<lparr> replies := replies (h a) @ [b] \<rparr>)"
      by (simp add: linkStep_def)
    then have "b \<in> set (replies (?h1 a))"
      by simp
    with grown_fields(6) [OF g2, of a] show ?thesis
      unfolding linkComments_Cons by blast
  next
    case False
    with Cons.prems have "b \<in> set cs" by simp
    moreover note f = grown_fields [OF g1]
    ultimately have "b \<in> set (replies (fst (linkComments m cs ?h1 ?r1) a))"
      using Cons.prems
      by (intro Cons.IH) (simp_all add: f grown_isRootComment [OF g1])
    then show ?thesis
      unfolding linkComments_Cons .
  qed
qed

text \<open>What \<open>buildTree\<close> does to the heap is a run of \<open>addReply\<close>.\<close>

lemma applyCommentOps_append:
  "applyCommentOps h (xs @ ys) = applyCommentOps (applyCommentOps h xs) ys"
  by (simp add: applyCommentOps_def)

lemma linkStep_run: "\<exists>ops. fst (linkStep m c h roots) = applyCommentOps h ops"
proof (cases "\<exists>parent h'. m (p_id (c_parent (h c))) = Some parent \<and> \<not> isRootComment (h c)
    \<and> addReply h parent c = Inr h'")
  case True
  then obtain parent h' where "m (p_id (c_parent (h c))) = Some parent"
    and "\<not> isRootComment (h c)" and "addReply h parent c = Inr h'"
    by blast
  then have "fst (linkStep m c h roots) = applyCommentOps h [AddReply parent c]"
    by (simp add: linkStep_def applyCommentOps_def)
  then show ?thesis ..
next
  case False
  then have "fst (linkStep m c h roots) = applyCommentOps h []"
    by (auto simp: linkStep_def applyCommentOps_def split: option.splits sum.splits)
  then show ?thesis ..
qed

lemma linkComments_run: "\<exists>ops. fst (linkComments m cs h roots) = applyCommentOps h ops"
proof (induction cs arbitrary: h roots)
  case Nil
  have "fst (linkComments m [] h roots) = applyCommentOps h []"
    by (simp add: applyCommentOps_def)
  then show ?case ..
next
  case (Cons c cs)
  let ?h1 = "fst (linkStep m c h roots)" and ?r1 = "snd (linkStep m c h roots)"
  from linkStep_run obtain ops1 where a: "?h1 = applyCommentOps h ops1"
    by blast
  from Cons.IH obtain ops2 where b: "fst (linkComments m cs ?h1 ?r1) = applyCommentOps ?h1 ops2"
    by blast
  have "fst (linkComments m (c # cs) h roots) = applyCommentOps h (ops1 @ ops2)"
    unfolding linkComments_Cons b applyCommentOps_append a [symmetric] ..
  then show ?case ..
qed

lemma buildTree_run: "\<exists>ops. fst (buildTree h cs) = applyCommentOps h ops"
  unfolding buildTree_def by (rule linkComments_run)

text \<open>Every heap that the code builds is linked.\<close>

lemma linked_fresh:
  assumes "\<forall>x. replies (h x) = []"
  shows "linked h"
  using assms by (simp add: linked_def)

lemma addReply_guards:
  assumes "addReply h p r = Inr h'"
  shows "p_id (c_parent (h r)) = c_id (h p) \<and> c_depth (h r) = c_depth (h p) + 1"
  using assms
  by (auto simp: addReply_def CommentParent_new_def CommentParent_equals_def
      split: if_splits sum.splits)

lemma addReply_linked:
  assumes "linked h" and "addReply h p r = Inr h'"
  shows "linked h'"
  unfolding linked_def
proof (intro allI ballI)
  fix x r'
  assume r': "r' \<in> set (replies (h' x))"
  note g = grown_fields [OF addReply_grown [OF assms(2)]]
  have "p_id (c_parent (h r')) = c_id (h x) \<and> c_depth (h r') = c_depth (h x) + 1"
  proof (cases "x = p \<and> r' = r")
    case True
    with addReply_guards [OF assms(2)] show ?thesis
      by simp
  next
    case False
    with r' have "r' \<in> set (replies (h x))"
      by (auto simp: addReply_Inr [OF assms(2)] split: if_splits)
    with assms(1) show ?thesis
      unfolding linked_def by blast
  qed
  then show "p_id (c_parent (h' r')) = c_id (h' x) \<and> c_depth (h' r') = c_depth (h' x) + 1"
    by (simp add: g)
qed

lemma markAsDeleted_fields:
  "c_id (markAsDeleted h c x) = c_id (h x)" "c_parent (markAsDeleted h c x) = c_parent (h x)"
  "c_depth (markAsDeleted h c x) = c_depth (h x)" "replies (markAsDeleted h c x) = replies (h x)"
  by (simp_all add: markAsDeleted_def)

lemma markAsDeleted_linked:
  assumes "linked h"
  shows "linked (markAsDeleted h c)"
  using assms unfolding linked_def by (simp add: markAsDeleted_fields)

lemma applyCommentOp_linked:
  assumes "linked h"
  shows "linked (applyCommentOp h op)"
proof (cases op)
  case (AddReply this reply)
  with assms addReply_linked show ?thesis
    by (cases "addReply h this reply") auto
next
  case (MarkAsDeleted this)
  with assms markAsDeleted_linked show ?thesis
    by simp
qed

lemma applyCommentOps_linked:
  assumes "linked h"
  shows "linked (applyCommentOps h ops)"
  using assms
proof (induction ops arbitrary: h)
  case Nil
  then show ?case by (simp add: applyCommentOps_def)
next
  case (Cons op ops)
  from Cons.IH [OF applyCommentOp_linked [OF Cons.prems]] show ?case
    by (simp add: applyCommentOps_def)
qed

lemma linkStep_linked:
  assumes "linked h"
  shows "linked (fst (linkStep m c h roots))"
  using assms addReply_linked
  by (auto simp: linkStep_def split: option.splits sum.splits)

lemma linkComments_linked:
  assumes "linked h"
  shows "linked (fst (linkComments m cs h roots))"
  using assms
proof (induction cs arbitrary: h roots)
  case Nil
  then show ?case by simp
next
  case (Cons c cs)
  show ?case
    unfolding linkComments_Cons
    by (rule Cons.IH [OF linkStep_linked [OF Cons.prems]])
qed

text \<open>
  In a linked heap the depth grows by one with every step into a thread: a comment of a
  thread is its head, or one of the replies of the head, or at least two levels deeper.
\<close>

lemma inThread_depth:
  assumes "inThread h x y" and "linked h"
  shows "x = y \<or> y \<in> set (replies (h x)) \<or> c_depth (h x) + 2 \<le> c_depth (h y)"
  using assms
proof (induction rule: inThread.induct)
  case (self x)
  show ?case by simp
next
  case (reply r x y)
  from reply.prems reply.hyps(1) have d: "c_depth (h r) = c_depth (h x) + 1"
    unfolding linked_def by blast
  from reply.IH [OF reply.prems]
  consider "r = y" | "y \<in> set (replies (h r))" | "c_depth (h r) + 2 \<le> c_depth (h y)"
    by blast
  then show ?case
  proof cases
    case 1
    with reply.hyps(1) show ?thesis by simp
  next
    case 2
    with reply.prems have "c_depth (h y) = c_depth (h r) + 1"
      unfolding linked_def by blast
    with d show ?thesis by simp
  next
    case 3
    with d show ?thesis by simp
  qed
qed

text \<open>The orphan is dropped.\<close>

lemma buildTree_orphan:
  assumes "linked h"
    and "p_type (c_parent (h b)) = comment"
    and "c_depth (h b) = 1"
    and "\<forall>c \<in> set cs. c_id (h c) \<noteq> p_id (c_parent (h b))"
    and "rt \<in> set (snd (buildTree h cs))"
  shows "\<not> inThread (fst (buildTree h cs)) rt b"
proof
  let ?h' = "fst (buildTree h cs)"
  assume t: "inThread ?h' rt b"
  have g: "grown h ?h'"
    unfolding buildTree_def by (rule linkComments_grown)
  note f = grown_fields [OF g]
  have l: "linked ?h'"
    unfolding buildTree_def by (rule linkComments_linked [OF assms(1)])
  from assms(5) have rt: "rt \<in> set cs" and isrt: "isRootComment (h rt)"
    by (simp_all add: buildTree_def linkComments_roots)
  from isrt have d0: "c_depth (h rt) = 0" and t0: "p_type (c_parent (h rt)) = hypothesis"
    by (simp_all add: isRootComment_def isRootLevel_def)
  from inThread_depth [OF t l]
  consider "rt = b" | "b \<in> set (replies (?h' rt))" | "c_depth (?h' rt) + 2 \<le> c_depth (?h' b)"
    by blast
  then show False
  proof cases
    case 1
    with t0 assms(2) show False by simp
  next
    case 2
    with l have "p_id (c_parent (?h' b)) = c_id (?h' rt)"
      unfolding linked_def by blast
    then have "p_id (c_parent (h b)) = c_id (h rt)"
      by (simp add: f)
    with assms(4) rt show False by auto
  next
    case 3
    then show False
      by (simp add: f d0 assms(3))
  qed
qed

lemma CommentParent_new_comment_type:
  assumes "CommentParent_new comment i a = Inr P"
  shows "p_type P = comment \<and> p_id P = i"
  using assms by (auto simp: CommentParent_new_def split: if_splits)

text \<open>
  Claim C3, amended. Let \<open>A\<close> and \<open>B\<close> be in the list, \<open>A\<close> a root comment (parent
  type \<open>hypothesis\<close>, depth 0) that is not deleted and the last comment of the list
  with its id, the parent reference of \<open>B\<close> the one that \<open>A.addReply\<close> expects (type
  \<open>comment\<close>, the id of \<open>A\<close> and the author of \<open>A\<close>), and \<open>B.depth = A.depth + 1\<close>.
  Then \<open>buildTree\<close> returns \<open>A\<close> among the roots with \<open>B\<close> in the replies of \<open>A\<close>.
  And let \<open>B\<close> be in the list with a parent reference of type \<open>comment\<close> and depth 1,
  where no comment of the list has the parent id of \<open>B\<close>. Then \<open>B\<close> is nowhere in the
  returned tree: it is no root, and in the thread of no returned root. This holds on every
  heap that the code builds, that is, after any run of \<open>addReply\<close> and
  \<open>markAsDeleted\<close> on comments that started without replies, earlier calls of
  \<open>buildTree\<close> included. \<open>buildTree\<close> has no error result.
\<close>

theorem buildTree_links_accepted_replies:
  "(b \<in> set (pre @ a # post) \<and> isRootComment (h a)
      \<and> (\<forall>c \<in> set post. c_id (h c) \<noteq> c_id (h a))
      \<and> \<not> isDeleted (h a)
      \<and> CommentParent_new comment (c_id (h a)) (c_authorPublicKey (h a)) = Inr (c_parent (h b))
      \<and> c_depth (h b) = c_depth (h a) + 1 \<longrightarrow>
      a \<in> set (snd (buildTree h (pre @ a # post)))
      \<and> b \<in> set (replies (fst (buildTree h (pre @ a # post)) a)))
   \<and> ((\<forall>x. replies (h0 x) = []) \<and> h = applyCommentOps h0 ops
      \<and> b \<in> set cs \<and> p_type (c_parent (h b)) = comment \<and> c_depth (h b) = 1
      \<and> (\<forall>c \<in> set cs. c_id (h c) \<noteq> p_id (c_parent (h b))) \<longrightarrow>
      b \<notin> set (snd (buildTree h cs))
      \<and> (\<forall>rt \<in> set (snd (buildTree h cs)). \<not> inThread (fst (buildTree h cs)) rt b))"
proof -
  let ?cs = "pre @ a # post"
  let ?m = "indexComments h ?cs Map.empty"
  have joined: "a \<in> set (snd (buildTree h ?cs)) \<and> b \<in> set (replies (fst (buildTree h ?cs) a))"
    if b: "b \<in> set ?cs" and rt: "isRootComment (h a)"
      and last: "\<forall>c \<in> set post. c_id (h c) \<noteq> c_id (h a)"
      and live: "\<not> isDeleted (h a)"
      and par: "CommentParent_new comment (c_id (h a)) (c_authorPublicKey (h a)) = Inr (c_parent (h b))"
      and dep: "c_depth (h b) = c_depth (h a) + 1"
  proof -
    from CommentParent_new_comment_type [OF par]
    have pt: "p_type (c_parent (h b)) = comment" and pid: "p_id (c_parent (h b)) = c_id (h a)"
      by simp_all
    have nr: "\<not> isRootComment (h b)"
      by (simp add: isRootComment_def isRootLevel_def pt)
    have idx: "?m (p_id (c_parent (h b))) = Some a"
      unfolding pid by (rule indexComments_last [OF last])
    have "a \<in> set (snd (buildTree h ?cs))"
      using rt by (simp add: buildTree_def linkComments_roots)
    moreover have "b \<in> set (replies (fst (buildTree h ?cs) a))"
      unfolding buildTree_def
      using linkComments_links [where m = ?m and h = h and a = a and b = b and cs = ?cs
          and roots = "[]"] b idx nr live par dep
      by blast
    ultimately show ?thesis
      by simp
  qed
  have dropped: "b \<notin> set (snd (buildTree h cs))
      \<and> (\<forall>rt \<in> set (snd (buildTree h cs)). \<not> inThread (fst (buildTree h cs)) rt b)"
    if fresh: "\<forall>x. replies (h0 x) = []" and run: "h = applyCommentOps h0 ops"
      and pt: "p_type (c_parent (h b)) = comment" and d1: "c_depth (h b) = 1"
      and absent: "\<forall>c \<in> set cs. c_id (h c) \<noteq> p_id (c_parent (h b))"
  proof -
    have l: "linked h"
      unfolding run by (rule applyCommentOps_linked [OF linked_fresh [OF fresh]])
    have out: "\<forall>rt \<in> set (snd (buildTree h cs)). \<not> inThread (fst (buildTree h cs)) rt b"
    proof
      fix rt
      assume "rt \<in> set (snd (buildTree h cs))"
      from buildTree_orphan [OF l pt d1 absent this]
      show "\<not> inThread (fst (buildTree h cs)) rt b" .
    qed
    with inThread.self [of "fst (buildTree h cs)" b] have "b \<notin> set (snd (buildTree h cs))"
      by blast
    with out show ?thesis by simp
  qed
  from joined dropped show ?thesis
    by blast
qed

section \<open>The examples of comments and votes\<close>

lemmas content_eval = CommentContent_create_def split_ws.simps singleWord_def nonSubstantive_def
  isWordChar_def asciiLower_def eval_defs

lemma sleep_content: "CommentContent_create sleep_text = Inr (CommentContent sleep_text)"
  by (simp add: sleep_text_def content_eval)

lemma agree_content: "CommentContent_create agree_text = Inr (CommentContent agree_text)"
  by (simp add: agree_text_def content_eval)

lemmas people = alice_def bob_def carol_def dave_def erin_def

lemma root_created:
  "Comment_create (js ''c1'') (js ''c1'') sleep_text hypothesis (js ''ev1'') alice bob 0 0
     = Inr root_comment"
  by (simp add: Comment_create_def sleep_content CommentParent_new_def root_comment_def people
      eval_defs)

lemma reply_created:
  "Comment_create (js ''c2'') (js ''c2'') agree_text comment (js ''c1'') bob alice 0 1
     = Inr reply_comment"
  by (simp add: Comment_create_def agree_content CommentParent_new_def reply_comment_def people
      eval_defs)







text \<open>
  The reply of the example thread is accepted by its parent, and rejected once the parent
  is marked as deleted.
\<close>

theorem deleted_comment_rejects_replies_witness:
  "addReply thread 0 1 = Inr (thread(0 := root_comment\<lparr> replies := [1] \<rparr>))
   \<and> isDeleted (markAsDeleted thread 0 0)
   \<and> addReply (applyCommentOps (markAsDeleted thread 0) [AddReply 0 1, MarkAsDeleted 1]) 0 1
       = Inl (Error ''Cannot reply to deleted comment'')
   \<and> replies (applyCommentOps (markAsDeleted thread 0) [AddReply 0 1, MarkAsDeleted 1] 0) = []"
proof -
  have "addReply thread 0 1 = Inr (thread(0 := (thread 0)\<lparr> replies := replies (thread 0) @ [1] \<rparr>))"
    by (rule addReply_accepts)
      (simp_all add: thread_def root_comment_def reply_comment_def CommentParent_new_def people
        eval_defs)
  then have "addReply thread 0 1 = Inr (thread(0 := root_comment\<lparr> replies := [1] \<rparr>))"
    by (simp add: thread_def root_comment_def)
  moreover have "isDeleted (markAsDeleted thread 0 0)"
    by (simp add: markAsDeleted_def)
  moreover have "replies (thread 0) = []"
    by (simp add: thread_def root_comment_def)
  ultimately show ?thesis
    using deleted_comment_rejects_replies [of thread 0 "[AddReply 0 1, MarkAsDeleted 1]" 1]
    by simp
qed

lemmas vote_eval = applyVoteOps_def addVote_def removeVote_def Vote_create_def study_def
  Source_new_def people js_def

lemma revote_votes:
  "votes (applyVoteOps study revote_ops)
     = [(alice, \<lparr> v_value = - 1, v_voterPublicKey = alice, v_createdAt = 2 \<rparr>),
        (bob, \<lparr> v_value = - 1, v_voterPublicKey = bob, v_createdAt = 1 \<rparr>)]"
  by (simp add: revote_ops_def vote_eval)

lemma poll_votes:
  "votes (applyVoteOps study poll_ops)
     = [(alice, \<lparr> v_value = 1, v_voterPublicKey = alice, v_createdAt = 0 \<rparr>),
        (bob, \<lparr> v_value = 1, v_voterPublicKey = bob, v_createdAt = 1 \<rparr>),
        (carol, \<lparr> v_value = 1, v_voterPublicKey = carol, v_createdAt = 2 \<rparr>),
        (dave, \<lparr> v_value = - 1, v_voterPublicKey = dave, v_createdAt = 3 \<rparr>),
        (erin, \<lparr> v_value = - 1, v_voterPublicKey = erin, v_createdAt = 4 \<rparr>)]"
  by (simp add: poll_ops_def vote_eval)

theorem one_vote_per_voter_witness:
  "votes study = []
   \<and> votesOf (applyVoteOps study revote_ops) alice = 1
   \<and> getUserVote (applyVoteOps study revote_ops) alice = Some (- 1)
   \<and> getTotalVotes (applyVoteOps study revote_ops) = 2
   \<and> addVote (applyVoteOps study revote_ops) alice 1 3
       = Inr (applyVoteOps study (revote_ops @ [AddVote alice 1 3]))
   \<and> votesOf (applyVoteOps study (revote_ops @ [AddVote alice 1 3])) alice = 1
   \<and> getUserVote (applyVoteOps study (revote_ops @ [AddVote alice 1 3])) alice = Some 1
   \<and> getTotalVotes (applyVoteOps study (revote_ops @ [AddVote alice 1 3])) = 2"
proof -
  let ?s = "applyVoteOps study revote_ops"
  let ?s' = "applyVoteOps study (revote_ops @ [AddVote alice 1 3])"
  have empty: "votes study = []"
    by (simp add: study_def Source_new_def)
  have ok: "\<exists>s'. addVote ?s alice 1 3 = Inr s'"
    by (simp add: addVote_def Vote_create_def people js_def)
  then have add: "addVote ?s alice 1 3 = Inr ?s'"
    by (auto simp: applyVoteOps_def)
  from one_vote_per_voter [where ?s0.0 = study and ops = revote_ops and k = alice and v = 1
      and now = 3 and s' = ?s', THEN conjunct2, THEN conjunct1] empty add
  have new: "votesOf ?s' alice = 1 \<and> getUserVote ?s' alice = Some 1"
    by blast
  have old: "votesOf ?s alice = 1 \<and> getUserVote ?s alice = Some (- 1) \<and> getTotalVotes ?s = 2"
    by (simp add: votesOf_def getUserVote_def getTotalVotes_def Map_size_def revote_votes people
        js_def)
  have "votes ?s'
      = [(alice, \<lparr> v_value = 1, v_voterPublicKey = alice, v_createdAt = 3 \<rparr>),
         (bob, \<lparr> v_value = - 1, v_voterPublicKey = bob, v_createdAt = 1 \<rparr>)]"
    by (simp add: revote_ops_def vote_eval)
  then have total: "getTotalVotes ?s' = 2"
    by (simp add: getTotalVotes_def Map_size_def)
  from empty old add new total show ?thesis
    by simp
qed

theorem Source_isControversial_ratio_witness:
  "votes study = []
   \<and> length (filter isUpvote (Map_values (votes (applyVoteOps study poll_ops)))) = 3
   \<and> length (filter isDownvote (Map_values (votes (applyVoteOps study poll_ops)))) = 2
   \<and> getTotalVotes (applyVoteOps study poll_ops) = 5
   \<and> real (min 3 2) / real (max 3 2) > 0.6
   \<and> Source_isControversial (applyVoteOps study poll_ops)"
proof -
  let ?s = "applyVoteOps study poll_ops"
  have empty: "votes study = []"
    by (simp add: study_def Source_new_def)
  have n: "3 = length (filter isUpvote (Map_values (votes ?s)))"
    by (simp add: poll_votes Map_values_def isUpvote_def)
  have m: "2 = length (filter isDownvote (Map_values (votes ?s)))"
    by (simp add: poll_votes Map_values_def isDownvote_def)
  have r: "real (min 3 2) / real (max 3 2) > 0.6"
    by simp
  from Source_isControversial_ratio [OF empty refl n m] r
  have "getTotalVotes ?s = 5 \<and> Source_isControversial ?s"
    by simp
  with empty n m r show ?thesis
    by simp
qed

lemmas tree_eval = buildTree_def linkStep_def isRootComment_def isRootLevel_def addReply_def
  CommentParent_new_def CommentParent_equals_def markAsDeleted_def thread_def root_comment_def
  reply_comment_def misattributed_reply_def second_root_def people eval_defs

text \<open>
  Claim C3, as stated, fails. With \<open>A\<close> and \<open>B\<close> present, \<open>A\<close> a root at depth 0 and
  \<open>B\<close> at depth 1 with parent type \<open>comment\<close> and the id of \<open>A\<close>, the reply \<open>B\<close> is
  left out of the replies of \<open>A\<close> when \<open>A\<close> is deleted, when the parent reference of
  \<open>B\<close> names another author than that of \<open>A\<close>, and when a later comment of the list
  has the id of \<open>A\<close> (the index keeps the later one, which gets the reply).
\<close>

theorem buildTree_counterexample:
  "isRootComment (deleted_thread 0)
   \<and> c_parent (deleted_thread 1)
       = \<lparr> p_type = comment, p_id = c_id (deleted_thread 0),
           p_authorPublicKey = c_authorPublicKey (deleted_thread 0) \<rparr>
   \<and> c_depth (deleted_thread 1) = c_depth (deleted_thread 0) + 1
   \<and> buildTree deleted_thread [0, 1] = (deleted_thread, [0])
   \<and> replies (deleted_thread 0) = []
   \<and> isRootComment (misattributed_thread 0)
   \<and> p_type (c_parent (misattributed_thread 1)) = comment
   \<and> p_id (c_parent (misattributed_thread 1)) = c_id (misattributed_thread 0)
   \<and> c_depth (misattributed_thread 1) = c_depth (misattributed_thread 0) + 1
   \<and> buildTree misattributed_thread [0, 1] = (misattributed_thread, [0])
   \<and> replies (misattributed_thread 0) = []
   \<and> isRootComment (duplicated_thread 0)
   \<and> c_parent (duplicated_thread 1)
       = \<lparr> p_type = comment, p_id = c_id (duplicated_thread 0),
           p_authorPublicKey = c_authorPublicKey (duplicated_thread 0) \<rparr>
   \<and> c_depth (duplicated_thread 1) = c_depth (duplicated_thread 0) + 1
   \<and> buildTree duplicated_thread [0, 1, 2]
       = (duplicated_thread(2 := root_comment\<lparr> replies := [1] \<rparr>), [0, 2])
   \<and> replies (duplicated_thread 0) = []"
proof -
  have a: "isRootComment (deleted_thread 0)
   \<and> c_parent (deleted_thread 1)
       = \<lparr> p_type = comment, p_id = c_id (deleted_thread 0),
           p_authorPublicKey = c_authorPublicKey (deleted_thread 0) \<rparr>
   \<and> c_depth (deleted_thread 1) = c_depth (deleted_thread 0) + 1
   \<and> replies (deleted_thread 0) = []"
    by (simp add: deleted_thread_def tree_eval)
  have a': "buildTree deleted_thread [0, 1] = (deleted_thread, [0])"
    by (simp add: deleted_thread_def tree_eval)
  have b: "isRootComment (misattributed_thread 0)
   \<and> p_type (c_parent (misattributed_thread 1)) = comment
   \<and> p_id (c_parent (misattributed_thread 1)) = c_id (misattributed_thread 0)
   \<and> c_depth (misattributed_thread 1) = c_depth (misattributed_thread 0) + 1
   \<and> replies (misattributed_thread 0) = []"
    by (simp add: misattributed_thread_def tree_eval)
  have b': "buildTree misattributed_thread [0, 1] = (misattributed_thread, [0])"
    by (simp add: misattributed_thread_def tree_eval)
  have c: "isRootComment (duplicated_thread 0)
   \<and> c_parent (duplicated_thread 1)
       = \<lparr> p_type = comment, p_id = c_id (duplicated_thread 0),
           p_authorPublicKey = c_authorPublicKey (duplicated_thread 0) \<rparr>
   \<and> c_depth (duplicated_thread 1) = c_depth (duplicated_thread 0) + 1
   \<and> replies (duplicated_thread 0) = []"
    by (simp add: duplicated_thread_def tree_eval)
  have c': "buildTree duplicated_thread [0, 1, 2]
       = (duplicated_thread(2 := root_comment\<lparr> replies := [1] \<rparr>), [0, 2])"
    by (simp add: duplicated_thread_def tree_eval)
  from a a' b b' c c' show ?thesis
    by simp
qed

lemma prelinked_thread_eval:
  "prelinked_thread = thread(2 := second_root, 0 := root_comment\<lparr> replies := [1] \<rparr>)"
  by (simp add: prelinked_thread_def applyCommentOps_def tree_eval)

theorem buildTree_links_accepted_replies_witness:
  "buildTree thread [0, 1] = (thread(0 := root_comment\<lparr> replies := [1] \<rparr>), [0])
   \<and> 0 \<in> set (snd (buildTree thread [0, 1]))
   \<and> 1 \<in> set (replies (fst (buildTree thread [0, 1]) 0))
   \<and> 2 \<in> set (snd (buildTree duplicated_thread [0, 1, 2]))
   \<and> 1 \<in> set (replies (fst (buildTree duplicated_thread [0, 1, 2]) 2))
   \<and> replies (prelinked_thread 0) = [1]
   \<and> buildTree prelinked_thread [2, 1] = (prelinked_thread, [2])
   \<and> \<not> inThread (fst (buildTree prelinked_thread [2, 1])) 2 1"
proof -
  have e1: "buildTree thread [0, 1] = (thread(0 := root_comment\<lparr> replies := [1] \<rparr>), [0])"
    by (simp add: tree_eval)
  have h1: "(1::nat) \<in> set ([] @ 0 # [1]) \<and> isRootComment (thread 0)
      \<and> (\<forall>c \<in> set [1]. c_id (thread c) \<noteq> c_id (thread 0))
      \<and> \<not> isDeleted (thread 0)
      \<and> CommentParent_new comment (c_id (thread 0)) (c_authorPublicKey (thread 0))
          = Inr (c_parent (thread 1))
      \<and> c_depth (thread 1) = c_depth (thread 0) + 1"
    by (simp add: tree_eval)
  from buildTree_links_accepted_replies [where h = thread and pre = "[]" and a = 0
      and post = "[1]" and b = 1, THEN conjunct1] h1
  have l1: "0 \<in> set (snd (buildTree thread [0, 1]))
      \<and> 1 \<in> set (replies (fst (buildTree thread [0, 1]) 0))"
    by simp
  have h2: "(1::nat) \<in> set ([0, 1] @ 2 # []) \<and> isRootComment (duplicated_thread 2)
      \<and> (\<forall>c \<in> set []. c_id (duplicated_thread c) \<noteq> c_id (duplicated_thread 2))
      \<and> \<not> isDeleted (duplicated_thread 2)
      \<and> CommentParent_new comment (c_id (duplicated_thread 2))
            (c_authorPublicKey (duplicated_thread 2))
          = Inr (c_parent (duplicated_thread 1))
      \<and> c_depth (duplicated_thread 1) = c_depth (duplicated_thread 2) + 1"
    by (simp add: duplicated_thread_def tree_eval)
  from buildTree_links_accepted_replies [where h = duplicated_thread and pre = "[0, 1]"
      and a = 2 and post = "[]" and b = 1, THEN conjunct1] h2
  have l2: "2 \<in> set (snd (buildTree duplicated_thread [0, 1, 2]))
      \<and> 1 \<in> set (replies (fst (buildTree duplicated_thread [0, 1, 2]) 2))"
    by simp
  have p0: "replies (prelinked_thread 0) = [1]"
    by (simp add: prelinked_thread_eval)
  have e3: "buildTree prelinked_thread [2, 1] = (prelinked_thread, [2])"
    by (simp add: prelinked_thread_eval tree_eval)
  have fresh: "\<forall>x. replies ((thread(2 := second_root)) x) = []"
    by (simp add: tree_eval)
  have run: "prelinked_thread = applyCommentOps (thread(2 := second_root)) [AddReply 0 1]"
    by (rule prelinked_thread_def)
  have h3: "(1::nat) \<in> set [2, 1] \<and> p_type (c_parent (prelinked_thread 1)) = comment
      \<and> c_depth (prelinked_thread 1) = 1
      \<and> (\<forall>c \<in> set [2, 1]. c_id (prelinked_thread c) \<noteq> p_id (c_parent (prelinked_thread 1)))"
    by (simp add: prelinked_thread_eval tree_eval)
  from buildTree_links_accepted_replies [where h = prelinked_thread
      and ?h0.0 = "thread(2 := second_root)" and ops = "[AddReply 0 1]" and cs = "[2, 1]"
      and b = 1, THEN conjunct2] fresh run h3
  have "1 \<notin> set (snd (buildTree prelinked_thread [2, 1]))
      \<and> (\<forall>rt \<in> set (snd (buildTree prelinked_thread [2, 1])).
            \<not> inThread (fst (buildTree prelinked_thread [2, 1])) rt 1)"
    by blast
  moreover have "2 \<in> set (snd (buildTree prelinked_thread [2, 1]))"
    unfolding e3 by simp
  ultimately have o: "\<not> inThread (fst (buildTree prelinked_thread [2, 1])) 2 1"
    by blast
  from e1 l1 l2 p0 e3 o show ?thesis
    by blast
qed

section \<open>Wire events: the round trip of a hypothesis\<close>

lemma signEvent_Inr:
  assumes "signEvent lib now eventTemplate privateKey = Inr ev"
  shows "e_tags ev = (case t_tags eventTemplate of None \<Rightarrow> [] | Some ts \<Rightarrow> ts)
       \<and> e_content ev = (case t_content eventTemplate of None \<Rightarrow> [] | Some c \<Rightarrow> c)"
  using assms
  by (auto simp: signEvent_def finalizeEvent_def split: sum.splits if_splits)

lemma signed_hypothesis_event:
  assumes "signEvent lib now (createHypothesisEvent JSON_stringify title body category) privateKey
             = Inr ev"
  shows "e_tags ev = [[js ''t'', js ''hypothesis''], [js ''t'', js ''blackpaper''],
                      [js ''category'', category], [js ''title'', title]]"
    and "e_content ev
           = JSON_stringify (Object [(js ''title'', String title), (js ''body'', String body)])"
  using signEvent_Inr [OF assms] by (simp_all add: createHypothesisEvent_def)

lemma tag_names_differ:
  "js ''t'' \<noteq> js ''category''" "js ''t'' \<noteq> js ''title''" "js ''category'' \<noteq> js ''title''"
  "js ''category'' \<noteq> js ''t''" "js ''title'' \<noteq> js ''t''" "js ''title'' \<noteq> js ''category''"
  "js ''title'' \<noteq> js ''body''" "js ''body'' \<noteq> js ''title''"
  "js ''content'' \<noteq> js ''title''" "js ''content'' \<noteq> js ''body''"
  by (simp_all add: js_def)

lemma tagAt_pair: "tagAt [a, b] 0 = String a" "tagAt [a, b] (Suc 0) = String b"
  by (simp_all add: tagAt_def)

lemma find_category_tag:
  "find (\<lambda>tag. tagAt tag 0 = String (js ''category''))
     [[js ''t'', js ''hypothesis''], [js ''t'', js ''blackpaper''],
      [js ''category'', category], [js ''title'', title]]
   = Some [js ''category'', category]"
  by (simp add: tagAt_def tag_names_differ)

lemma find_title_tag:
  "find (\<lambda>tag. tagAt tag 0 = String (js ''title''))
     [[js ''t'', js ''hypothesis''], [js ''t'', js ''blackpaper''],
      [js ''category'', category], [js ''title'', title]]
   = Some [js ''title'', title]"
  by (simp add: tagAt_def tag_names_differ)

lemma content_props:
  "getProp (Object [(js ''title'', String title), (js ''body'', String body)]) (js ''title'')
     = Inr (String title)"
  "getProp (Object [(js ''title'', String title), (js ''body'', String body)]) (js ''body'')
     = Inr (String body)"
  by (simp_all add: tag_names_differ)

lemma trim_Nil: "trim [] = []"
  by (simp add: trim_def)

lemma HypothesisTitle_create_nonempty:
  assumes "HypothesisTitle_create t = Inr v"
  shows "t \<noteq> []"
proof
  assume "t = []"
  with assms show False
    by (simp add: HypothesisTitle_create_def trim_Nil)
qed

lemma HypothesisBody_create_nonempty:
  assumes "HypothesisBody_create b = Inr v"
  shows "b \<noteq> []"
proof
  assume "b = []"
  with assms show False
    by (simp add: HypothesisBody_create_def trim_Nil)
qed

lemma Hypothesis_create_Inr:
  assumes "Hypothesis_create i n (String t) (String b) c k ts = Inr hyp"
  shows "HypothesisTitle_create t = Inr (h_title hyp)"
    and "HypothesisBody_create b = Inr (h_body hyp)"
    and "AcademicCategory_includes c = Some (h_category hyp)"
    and "Hypothesis_create i' n' (String t) (String b) c k ts'
           = Inr (hyp\<lparr> h_id := i', h_nostrEventId := n', h_createdAt := ts' \<rparr>)"
proof -
  from assms obtain vt vb cat
    where t: "HypothesisTitle_create t = Inr vt" and b: "HypothesisBody_create b = Inr vb"
      and k: "\<not> (k = [] \<or> length k < 10)" and c: "AcademicCategory_includes c = Some cat"
      and hyp: "hyp = \<lparr> h_id = i, h_nostrEventId = n, h_title = vt, h_body = vb,
                h_category = cat, h_creatorPublicKey = k, h_createdAt = ts,
                sourceStats = \<lparr> supporting = 0, refuting = 0 \<rparr>, commentCount = 0 \<rparr>"
    by (auto simp: Hypothesis_create_def split: sum.splits if_splits option.splits)
  show "HypothesisTitle_create t = Inr (h_title hyp)"
    and "HypothesisBody_create b = Inr (h_body hyp)"
    and "AcademicCategory_includes c = Some (h_category hyp)"
    by (simp_all add: t b c hyp)
  show "Hypothesis_create i' n' (String t) (String b) c k ts'
           = Inr (hyp\<lparr> h_id := i', h_nostrEventId := n', h_createdAt := ts' \<rparr>)"
    using k by (simp add: Hypothesis_create_def t b c hyp)
qed

text \<open>
  Claim C7. Let \<open>Hypothesis.create\<close> accept title, body, category and creator. Encode
  them with \<open>createHypothesisEvent\<close> and let the creator sign the template. Then
  \<open>isValidHypothesisEvent\<close> accepts the signed event and \<open>eventToHypothesis\<close> returns
  the hypothesis that \<open>Hypothesis.create\<close> returned, with the id and the time of the
  event: its title, body and category are those of the original. The platform is assumed
  to parse the JSON text of the object \<open>{title, body}\<close> back to that object.
\<close>

theorem hypothesis_event_round_trip:
  assumes created: "Hypothesis_create i n (String title) (String body) (String category) creator ts
                      = Inr hyp"
    and json: "JSON_parse (JSON_stringify
                 (Object [(js ''title'', String title), (js ''body'', String body)]))
               = Inr (Object [(js ''title'', String title), (js ''body'', String body)])"
    and signed: "signEvent lib now (createHypothesisEvent JSON_stringify title body category)
                   privateKey = Inr ev"
    and signer: "e_pubkey ev = creator"
  shows "isValidHypothesisEvent JSON_parse ev
       \<and> eventToHypothesis JSON_parse ev
           = Inr (hyp\<lparr> h_id := e_id ev, h_nostrEventId := e_id ev,
                      h_createdAt := e_created_at ev * 1000 \<rparr>)
       \<and> h_title (hyp\<lparr> h_id := e_id ev, h_nostrEventId := e_id ev,
                      h_createdAt := e_created_at ev * 1000 \<rparr>) = h_title hyp
       \<and> h_body (hyp\<lparr> h_id := e_id ev, h_nostrEventId := e_id ev,
                      h_createdAt := e_created_at ev * 1000 \<rparr>) = h_body hyp
       \<and> h_category (hyp\<lparr> h_id := e_id ev, h_nostrEventId := e_id ev,
                      h_createdAt := e_created_at ev * 1000 \<rparr>) = h_category hyp"
proof -
  note ev = signed_hypothesis_event [OF signed]
  note parts = Hypothesis_create_Inr [OF created]
  have title: "title \<noteq> []"
    by (rule HypothesisTitle_create_nonempty [OF parts(1)])
  have body: "body \<noteq> []"
    by (rule HypothesisBody_create_nonempty [OF parts(2)])
  have parsed: "JSON_parse (e_content ev)
      = Inr (Object [(js ''title'', String title), (js ''body'', String body)])"
    by (simp only: ev(2) json)
  have valid: "isValidHypothesisEvent JSON_parse ev"
    by (simp add: isValidHypothesisEvent_def hasTag_def parsed content_props title ev(1) tagAt_def
        tag_names_differ)
  have "eventToHypothesis_try JSON_parse ev
      = Hypothesis_create (e_id ev) (e_id ev) (String title) (String body) (String category)
          creator (e_created_at ev * 1000)"
    by (simp add: eventToHypothesis_try_def parsed ev(1) find_category_tag find_title_tag
        content_props body tagAt_pair tag_names_differ signer)
  also have "\<dots> = Inr (hyp\<lparr> h_id := e_id ev, h_nostrEventId := e_id ev,
                      h_createdAt := e_created_at ev * 1000 \<rparr>)"
    by (rule parts(4))
  finally have "eventToHypothesis JSON_parse ev
      = Inr (hyp\<lparr> h_id := e_id ev, h_nostrEventId := e_id ev,
                      h_createdAt := e_created_at ev * 1000 \<rparr>)"
    by (simp add: eventToHypothesis_def)
  with valid show ?thesis
    by simp
qed

section \<open>The JSON codec of the examples inverts itself\<close>

lemma hexValue_hexDigit: "d < 16 \<Longrightarrow> hexValue (hexDigit d) = Some d"
  by (simp add: hexValue_def hexDigit_def)

lemma hex_value:
  fixes c :: nat
  assumes "c < 65536"
  shows "((c div 4096 mod 16 * 16 + c div 256 mod 16) * 16 + c div 16 mod 16) * 16 + c mod 16 = c"
proof -
  have d1: "c div 256 = c div 16 div 16"
    by (simp add: div_mult2_eq [symmetric])
  have d2: "c div 4096 = c div 256 div 16"
    by (simp add: div_mult2_eq [symmetric])
  from assms have small: "c div 4096 < 16"
    by (simp add: less_mult_imp_div_less)
  have "c = c div 16 * 16 + c mod 16"
    by simp
  also have "c div 16 = c div 256 * 16 + c div 16 mod 16"
    unfolding d1 by simp
  also have "c div 256 = c div 4096 * 16 + c div 256 mod 16"
    unfolding d2 by simp
  finally show ?thesis
    using small by simp
qed

lemma readString_unicodeEscape:
  assumes "c < 65536"
  shows "readString Plain acc (unicodeEscape c @ rest) = readString Plain (c # acc) rest"
proof -
  let ?v = "((c div 4096 mod 16 * 16 + c div 256 mod 16) * 16 + c div 16 mod 16) * 16 + c mod 16"
  have "readString Plain acc (unicodeEscape c @ rest) = readString Plain (?v # acc) rest"
    by (simp add: unicodeEscape_def hexValue_hexDigit)
  also have "?v = c"
    by (rule hex_value [OF assms])
  finally show ?thesis .
qed

lemma readString_quoted:
  "readString Plain acc (quoteJSONChars s @ 34 # rest) = Some (rev acc @ s, rest)"
proof (induction "length s" arbitrary: s acc rule: less_induct)
  case less
  show ?case
  proof (cases s)
    case Nil
    then show ?thesis by simp
  next
    case (Cons c cs)
    have IH: "readString Plain acc' (quoteJSONChars cs @ 34 # rest) = Some (rev acc' @ cs, rest)"
      for acc'
      using less [of cs acc'] Cons by simp
    show ?thesis
    proof (cases "c = 8 \<or> c = 9 \<or> c = 10 \<or> c = 12 \<or> c = 13 \<or> c = 34 \<or> c = 92")
      case True
      then show ?thesis
        unfolding Cons by (elim disjE) (simp_all add: unescapeChar_def IH)
    next
      case short: False
      show ?thesis
      proof (cases "c < 32")
        case True
        with short show ?thesis
          unfolding Cons by (simp add: readString_unicodeEscape IH)
      next
        case printable: False
        show ?thesis
        proof (cases "isHighSurrogate c")
          case True
          then have c: "c < 65536"
            by (simp add: isHighSurrogate_def)
          show ?thesis
          proof (cases cs)
            case Nil
            with True short printable c show ?thesis
              unfolding Cons by (simp add: readString_unicodeEscape)
          next
            case (Cons l cs')
            note cs = Cons
            show ?thesis
            proof (cases "isLowSurrogate l")
              case low: True
              then have l: "l \<noteq> 34" "l \<noteq> 92" "\<not> l < 32"
                by (simp_all add: isLowSurrogate_def)
              have "readString Plain (l # c # acc) (quoteJSONChars cs' @ 34 # rest)
                  = Some (rev (l # c # acc) @ cs', rest)"
                using less [of cs' "l # c # acc"] \<open>s = c # cs\<close> cs by simp
              with True short printable l low show ?thesis
                unfolding \<open>s = c # cs\<close> cs by simp
            next
              case notlow: False
              with True short printable c show ?thesis
                unfolding \<open>s = c # cs\<close> using IH [of "c # acc"]
                by (simp add: readString_unicodeEscape cs)
            qed
          qed
        next
          case nothigh: False
          show ?thesis
          proof (cases "isLowSurrogate c")
            case True
            then have c: "c < 65536"
              by (simp add: isLowSurrogate_def)
            with True short printable nothigh show ?thesis
              unfolding Cons by (simp add: readString_unicodeEscape IH)
          next
            case False
            with short printable nothigh show ?thesis
              unfolding Cons by (simp add: IH)
          qed
        qed
      qed
    qed
  qed
qed

lemma readQuoted_quoted: "readQuoted (quoteJSONString s @ rest) = Some (s, rest)"
  by (simp add: readQuoted_def expect_def quoteJSONString_def readString_quoted)

lemma readMember_string:
  "readMember (stringifyMember (k, String v) @ rest) = Some ((k, String v), rest)"
proof -
  have "readQuoted (quoteJSONString k @ 58 # quoteJSONString v @ rest)
      = Some (k, 58 # quoteJSONString v @ rest)"
    by (rule readQuoted_quoted)
  then show ?thesis
    by (simp add: readMember_def expect_def readQuoted_quoted)
qed

lemma readMembers_two:
  "readMembers (Suc (Suc n))
     (stringifyMember (k1, String v1) @ 44 # stringifyMember (k2, String v2) @ [125])
   = Some ([(k1, String v1), (k2, String v2)], [])"
proof -
  have last: "readMembers (Suc n) (stringifyMember (k2, String v2) @ [125])
      = Some ([(k2, String v2)], [])"
    by (simp add: readMember_string expect_def del: stringifyMember.simps)
  show ?thesis
    by (simp add: readMember_string expect_def last del: stringifyMember.simps)
qed

lemma stringifyMember_Cons:
  "stringifyMember (k, String v) = 34 # (quoteJSONChars k @ 34 # 58 # quoteJSONString v)"
  by (simp add: quoteJSONString_def)

lemma flat_json_round_trip:
  "parseFlat (stringifyFlat (Object [(k1, String v1), (k2, String v2)]))
     = Inr (Object [(k1, String v1), (k2, String v2)])"
proof -
  let ?m1 = "stringifyMember (k1, String v1)" and ?m2 = "stringifyMember (k2, String v2)"
  let ?r = "?m1 @ 44 # ?m2 @ [125]"
  have json_text: "stringifyFlat (Object [(k1, String v1), (k2, String v2)]) = 123 # ?r"
    by (simp del: stringifyMember.simps)
  have len: "length ?r = Suc (Suc (Suc (length (quoteJSONChars k1 @ 34 # 58 # quoteJSONString v1)
      + length ?m2)))"
    by (simp only: stringifyMember_Cons [of k1 v1] length_append list.size)
  have ne: "?r \<noteq> [125]"
  proof
    assume "?r = [125]"
    then have "length ?r = 1"
      by (simp only: list.size)
    with len show False
      by linarith
  qed
  have "readMembers (length ?r) ?r = Some ([(k1, String v1), (k2, String v2)], [])"
    unfolding len by (rule readMembers_two)
  with ne show ?thesis
    unfolding json_text parseFlat_def expect_def by (simp del: stringifyMember.simps)
qed

section \<open>The round trip of the coffee hypothesis\<close>

lemma coffee_signed:
  "signEvent toy_tools 1700000000
     (createHypothesisEvent stringifyFlat coffee_title coffee_body (js ''psychology''))
     (js ''nsec1alicekey'') = Inr coffee_event"
  by (simp add: signEvent_def toy_tools_def createHypothesisEvent_def finalizeEvent_def
      coffee_event_def BLACK_PAPER_EVENT_KINDS_HYPOTHESIS_def js_def
      del: stringifyFlat.simps)

theorem hypothesis_event_round_trip_witness:
  "Hypothesis_create (js ''ev1'') (js ''ev1'') (String coffee_title) (String coffee_body)
     (String (js ''psychology'')) alice 0 = Inr coffee
   \<and> signEvent toy_tools 1700000000
       (createHypothesisEvent stringifyFlat coffee_title coffee_body (js ''psychology''))
       (js ''nsec1alicekey'') = Inr coffee_event
   \<and> e_pubkey coffee_event = alice
   \<and> isValidHypothesisEvent parseFlat coffee_event
   \<and> eventToHypothesis parseFlat coffee_event = Inr (coffee\<lparr> h_createdAt := 1700000000000 \<rparr>)"
proof -
  have signer: "e_pubkey coffee_event = alice"
    by (simp add: coffee_event_def)
  have same: "coffee\<lparr> h_id := e_id coffee_event, h_nostrEventId := e_id coffee_event,
      h_createdAt := e_created_at coffee_event * 1000 \<rparr> = coffee\<lparr> h_createdAt := 1700000000000 \<rparr>"
    by (simp add: coffee_event_def coffee_def)
  from hypothesis_event_round_trip [where JSON_parse = parseFlat and JSON_stringify = stringifyFlat
      and title = coffee_title and body = coffee_body and category = "js ''psychology''"
      and creator = alice and hyp = coffee and ev = coffee_event and lib = toy_tools
      and now = 1700000000 and privateKey = "js ''nsec1alicekey''" and i = "js ''ev1''"
      and n = "js ''ev1''" and ts = 0]
    coffee_created flat_json_round_trip coffee_signed signer
  have "isValidHypothesisEvent parseFlat coffee_event
      \<and> eventToHypothesis parseFlat coffee_event = Inr (coffee\<lparr> h_createdAt := 1700000000000 \<rparr>)"
    unfolding same by blast
  with coffee_created coffee_signed signer show ?thesis
    by blast
qed

end
